theory Spec2Isabelle
  imports Complex_Main "HOL-Library.Multiset"
begin

section \<open>Arithmetic\<close>

text \<open>
  The pair style computes in C \<^verbatim>\<open>double\<close>.  The embedding is parametric in the number
  type \<open>'a\<close>: every function below is written with the operators of the source and is
  polymorphic in \<open>'a\<close>.  Properties that depend on control flow only are proved for every
  \<open>'a\<close>; algebraic properties are proved for exact arithmetic (\<open>'a = real\<close>, no rounding);
  the behaviour on non-finite values is evaluated in the type \<open>dbl\<close> below, which extends
  the reals by the IEEE 754 special values with their arithmetic rules (finite operations
  exact, no overflow, a single unsigned zero); rounding is evaluated in the type \<open>b64\<close>,
  which rounds every operation of \<open>dbl\<close> to double precision.
\<close>

datatype dbl = Fin real | PInf | NInf | NaN

fun dbl_add :: "dbl \<Rightarrow> dbl \<Rightarrow> dbl" where
  "dbl_add NaN _ = NaN"
| "dbl_add _ NaN = NaN"
| "dbl_add (Fin a) (Fin b) = Fin (a + b)"
| "dbl_add PInf NInf = NaN"
| "dbl_add NInf PInf = NaN"
| "dbl_add PInf _ = PInf"
| "dbl_add _ PInf = PInf"
| "dbl_add NInf _ = NInf"
| "dbl_add _ NInf = NInf"

fun dbl_neg :: "dbl \<Rightarrow> dbl" where
  "dbl_neg (Fin a) = Fin (- a)"
| "dbl_neg PInf = NInf"
| "dbl_neg NInf = PInf"
| "dbl_neg NaN = NaN"

fun dbl_mul :: "dbl \<Rightarrow> dbl \<Rightarrow> dbl" where
  "dbl_mul NaN _ = NaN"
| "dbl_mul _ NaN = NaN"
| "dbl_mul (Fin a) (Fin b) = Fin (a * b)"
| "dbl_mul (Fin a) PInf = (if a = 0 then NaN else if 0 < a then PInf else NInf)"
| "dbl_mul (Fin a) NInf = (if a = 0 then NaN else if 0 < a then NInf else PInf)"
| "dbl_mul PInf (Fin b) = (if b = 0 then NaN else if 0 < b then PInf else NInf)"
| "dbl_mul NInf (Fin b) = (if b = 0 then NaN else if 0 < b then NInf else PInf)"
| "dbl_mul PInf PInf = PInf"
| "dbl_mul PInf NInf = NInf"
| "dbl_mul NInf PInf = NInf"
| "dbl_mul NInf NInf = PInf"

fun dbl_div :: "dbl \<Rightarrow> dbl \<Rightarrow> dbl" where
  "dbl_div NaN _ = NaN"
| "dbl_div _ NaN = NaN"
| "dbl_div (Fin a) (Fin b) =
     (if b = 0 then (if a = 0 then NaN else if 0 < a then PInf else NInf) else Fin (a / b))"
| "dbl_div (Fin a) PInf = Fin 0"
| "dbl_div (Fin a) NInf = Fin 0"
| "dbl_div PInf (Fin b) = (if 0 \<le> b then PInf else NInf)"
| "dbl_div NInf (Fin b) = (if 0 \<le> b then NInf else PInf)"
| "dbl_div PInf PInf = NaN"
| "dbl_div PInf NInf = NaN"
| "dbl_div NInf PInf = NaN"
| "dbl_div NInf NInf = NaN"

fun dbl_le :: "dbl \<Rightarrow> dbl \<Rightarrow> bool" where
  "dbl_le NaN _ = False"
| "dbl_le _ NaN = False"
| "dbl_le (Fin a) (Fin b) = (a \<le> b)"
| "dbl_le NInf _ = True"
| "dbl_le _ PInf = True"
| "dbl_le PInf _ = False"
| "dbl_le _ NInf = False"

fun dbl_lt :: "dbl \<Rightarrow> dbl \<Rightarrow> bool" where
  "dbl_lt NaN _ = False"
| "dbl_lt _ NaN = False"
| "dbl_lt (Fin a) (Fin b) = (a < b)"
| "dbl_lt PInf _ = False"
| "dbl_lt _ NInf = False"
| "dbl_lt NInf _ = True"
| "dbl_lt _ PInf = True"

fun dbl_sqrt :: "dbl \<Rightarrow> dbl" where
  "dbl_sqrt (Fin a) = (if a < 0 then NaN else Fin (sqrt a))"
| "dbl_sqrt PInf = PInf"
| "dbl_sqrt NInf = NaN"
| "dbl_sqrt NaN = NaN"

fun dbl_exp :: "dbl \<Rightarrow> dbl" where
  "dbl_exp (Fin a) = Fin (exp a)"
| "dbl_exp PInf = PInf"
| "dbl_exp NInf = Fin 0"
| "dbl_exp NaN = NaN"

fun is_finite :: "dbl \<Rightarrow> bool" where
  "is_finite (Fin a) = True"
| "is_finite _ = False"

instantiation dbl :: "{zero,one,plus,minus,uminus,times,inverse,ord}"
begin

definition zero_dbl :: dbl where "zero_dbl = Fin 0"
definition one_dbl :: dbl where "one_dbl = Fin 1"
definition plus_dbl :: "dbl \<Rightarrow> dbl \<Rightarrow> dbl" where "plus_dbl = dbl_add"
definition uminus_dbl :: "dbl \<Rightarrow> dbl" where "uminus_dbl = dbl_neg"
definition minus_dbl :: "dbl \<Rightarrow> dbl \<Rightarrow> dbl" where "minus_dbl a b = dbl_add a (dbl_neg b)"
definition times_dbl :: "dbl \<Rightarrow> dbl \<Rightarrow> dbl" where "times_dbl = dbl_mul"
definition divide_dbl :: "dbl \<Rightarrow> dbl \<Rightarrow> dbl" where "divide_dbl = dbl_div"
definition inverse_dbl :: "dbl \<Rightarrow> dbl" where "inverse_dbl a = dbl_div (Fin 1) a"
definition less_eq_dbl :: "dbl \<Rightarrow> dbl \<Rightarrow> bool" where "less_eq_dbl = dbl_le"
definition less_dbl :: "dbl \<Rightarrow> dbl \<Rightarrow> bool" where "less_dbl = dbl_lt"

instance ..

end

instance dbl :: semigroup_add
proof
  fix a b c :: dbl
  show "a + b + c = a + (b + c)"
    by (cases a; cases b; cases c) (simp_all add: plus_dbl_def)
qed

instance dbl :: numeral ..

text \<open>
  \<^verbatim>\<open>(double)(n)\<close> for a particle count \<open>n\<close>.
\<close>

primrec double_of_nat :: "nat \<Rightarrow> 'a::{zero,one,plus}" where
  "double_of_nat 0 = 0"
| "double_of_nat (Suc n) = double_of_nat n + 1"

subsection \<open>Double precision with rounding\<close>

text \<open>
  The type \<open>b64\<close> is IEEE 754 binary64 arithmetic: every operation is the operation of
  \<open>dbl\<close> followed by rounding to the nearest value with 53 significant bits, ties to even,
  with gradual underflow (the spacing never falls below \<open>2^-1074\<close>) and overflow to infinity
  beyond \<^verbatim>\<open>DBL_MAX\<close>.  As in \<open>dbl\<close> there is one zero and one NaN.  The square root is
  correctly rounded, as IEEE 754 requires; so is, for definiteness, the exponential.  The
  addition of \<open>b64\<close> is not associative, so the type has no numerals; \<open>b64_of m k\<close> is the
  double \<open>m * 2^k\<close>.
\<close>

text \<open>The power \<open>2^k\<close> for an integer \<open>k\<close>.\<close>

definition pow2 :: "int \<Rightarrow> real" where
  "pow2 k = (if 0 \<le> k then 2 ^ nat k else 1 / 2 ^ nat (- k))"

text \<open>Rounding to the nearest integer, ties to the even one.\<close>

definition round_half_even :: "real \<Rightarrow> int" where
  "round_half_even q =
     (let f = \<lfloor>q\<rfloor>
      in if q - of_int f < 1 / 2 then f
         else if 1 / 2 < q - of_int f then f + 1
         else if even f then f else f + 1)"

text \<open>
  Rounding of a real to 53 significant bits: for \<open>2^e \<le> |x| < 2^(e+1)\<close> the spacing of the
  doubles is \<open>2^(e-52)\<close>, and \<open>2^-1074\<close> in the subnormal range.
\<close>

definition round53 :: "real \<Rightarrow> real" where
  "round53 x =
     (if x = 0 then 0
      else let k = max (\<lfloor>log 2 \<bar>x\<bar>\<rfloor> - 52) (- 1074)
           in of_int (round_half_even (x / pow2 k)) * pow2 k)"

text \<open>The largest double, and rounding with overflow.\<close>

definition max_double :: real where
  "max_double = 2 ^ 1024 - 2 ^ 971"

fun dbl_round :: "dbl \<Rightarrow> dbl" where
  "dbl_round (Fin x) =
     (let y = round53 x
      in if max_double < y then PInf else if y < - max_double then NInf else Fin y)"
| "dbl_round PInf = PInf"
| "dbl_round NInf = NInf"
| "dbl_round NaN = NaN"

declare dbl_round.simps [simp del]

datatype b64 = B64 dbl

fun b64_sqrt :: "b64 \<Rightarrow> b64" where
  "b64_sqrt (B64 x) = B64 (dbl_round (dbl_sqrt x))"

fun b64_exp :: "b64 \<Rightarrow> b64" where
  "b64_exp (B64 x) = B64 (dbl_round (dbl_exp x))"

fun b64_add :: "b64 \<Rightarrow> b64 \<Rightarrow> b64" where
  "b64_add (B64 x) (B64 y) = B64 (dbl_round (x + y))"

fun b64_sub :: "b64 \<Rightarrow> b64 \<Rightarrow> b64" where
  "b64_sub (B64 x) (B64 y) = B64 (dbl_round (x - y))"

fun b64_neg :: "b64 \<Rightarrow> b64" where
  "b64_neg (B64 x) = B64 (- x)"

fun b64_mul :: "b64 \<Rightarrow> b64 \<Rightarrow> b64" where
  "b64_mul (B64 x) (B64 y) = B64 (dbl_round (x * y))"

fun b64_div :: "b64 \<Rightarrow> b64 \<Rightarrow> b64" where
  "b64_div (B64 x) (B64 y) = B64 (dbl_round (x / y))"

fun b64_le :: "b64 \<Rightarrow> b64 \<Rightarrow> bool" where
  "b64_le (B64 x) (B64 y) = (x \<le> y)"

fun b64_lt :: "b64 \<Rightarrow> b64 \<Rightarrow> bool" where
  "b64_lt (B64 x) (B64 y) = (x < y)"

fun b64_finite :: "b64 \<Rightarrow> bool" where
  "b64_finite (B64 x) = is_finite x"

instantiation b64 :: "{zero,one,plus,minus,uminus,times,inverse,ord}"
begin

definition zero_b64 :: b64 where "zero_b64 = B64 (Fin 0)"
definition one_b64 :: b64 where "one_b64 = B64 (Fin 1)"
definition plus_b64 :: "b64 \<Rightarrow> b64 \<Rightarrow> b64" where "plus_b64 = b64_add"
definition uminus_b64 :: "b64 \<Rightarrow> b64" where "uminus_b64 = b64_neg"
definition minus_b64 :: "b64 \<Rightarrow> b64 \<Rightarrow> b64" where "minus_b64 = b64_sub"
definition times_b64 :: "b64 \<Rightarrow> b64 \<Rightarrow> b64" where "times_b64 = b64_mul"
definition divide_b64 :: "b64 \<Rightarrow> b64 \<Rightarrow> b64" where "divide_b64 = b64_div"
definition inverse_b64 :: "b64 \<Rightarrow> b64" where "inverse_b64 a = b64_div (B64 (Fin 1)) a"
definition less_eq_b64 :: "b64 \<Rightarrow> b64 \<Rightarrow> bool" where "less_eq_b64 = b64_le"
definition less_b64 :: "b64 \<Rightarrow> b64 \<Rightarrow> bool" where "less_b64 = b64_lt"

instance ..

end

definition b64_of :: "int \<Rightarrow> int \<Rightarrow> b64" where
  "b64_of m k = B64 (Fin (of_int m * pow2 k))"


section \<open>Data model\<close>

text \<open>
  A \<^verbatim>\<open>double **a\<close> is the index function \<open>a i p\<close>; the loops of the source only touch
  indices below \<^verbatim>\<open>nlocal\<close> (and \<^verbatim>\<open>3*nlocal\<close> for the field matrix).
\<close>

type_synonym 'a array1 = "nat \<Rightarrow> 'a"
type_synonym 'a array2 = "nat \<Rightarrow> nat \<Rightarrow> 'a"

definition upd2 :: "'a array2 \<Rightarrow> nat \<Rightarrow> nat \<Rightarrow> 'a \<Rightarrow> 'a array2" where
  "upd2 a i p v = a(i := (a i)(p := v))"

datatype damping = DAMPING_EXPONENTIAL | DAMPING_NONE

text \<open>The settings of the pair style (set in the constructor and by \<^verbatim>\<open>settings\<close>).\<close>

record 'a settings =
  iterations_max :: int
  damping_type :: damping
  polar_damp :: 'a
  zodid :: bool
  polar_precision :: 'a
  fixed_iteration :: bool
  polar_gs :: bool
  polar_gs_ranked :: bool
  polar_gamma :: 'a
  use_previous :: bool
  cut_coul :: 'a
  cut_coulsq :: 'a
  qqrd2e :: 'a
  eflag :: bool

text \<open>
  What the source takes from \<^verbatim>\<open>math.h\<close>, \<^verbatim>\<open>float.h\<close> and the \<^verbatim>\<open>domain\<close> object, none
  of which is part of the pair style: parameters of the embedding.
\<close>

record 'a env =
  libm_sqrt :: "'a \<Rightarrow> 'a"
  libm_exp :: "'a \<Rightarrow> 'a"
  DBL_MAX :: 'a
  closest_image :: "'a array1 \<Rightarrow> 'a array1 \<Rightarrow> 'a array1"

text \<open>
  The per-atom arrays of \<^verbatim>\<open>atom\<close>, the work arrays of the pair style, the locals of
  \<^verbatim>\<open>DipoleSolverIterative\<close> that live across loop passes, and what the run leaves
  behind: \<open>warned\<close> records the call of \<^verbatim>\<open>error->warning\<close>; \<open>sweeps\<close> and
  \<open>precision_tests\<close> count the executions of the contraction loop and of the precision
  test (they are observers: no function reads them).
\<close>

record 'a state =
  nlocal :: nat
  atom_x :: "'a array2"
  atom_q :: "'a array1"
  atom_f :: "'a array2"
  molecule :: "nat \<Rightarrow> int"
  static_polarizability :: "'a array1"
  ef_static :: "'a array2"
  mu_induced :: "'a array2"
  ef_induced :: "'a array2"
  mu_induced_new :: "'a array2"
  mu_induced_old :: "'a array2"
  dipole_field_matrix :: "'a array2"
  ranked_array :: "nat list"
  rank_metric :: "'a array1"
  iterations :: int
  keep_iterating :: bool
  warned :: bool
  sweeps :: nat
  precision_tests :: nat
  u_polar_self :: 'a
  u_polar_ef :: 'a
  u_polar_dd :: 'a
  eng_pol :: 'a

section \<open>build\_dipole\_field\_matrix\<close>

definition zero_matrix :: "nat \<Rightarrow> 'a::zero array2 \<Rightarrow> 'a array2" where
  "zero_matrix N m = fold (\<lambda>i. fold (\<lambda>j m. upd2 m i j 0) [0..<3 * N]) [0..<3 * N] m"

definition diagonal_blocks ::
  "'a::{zero,one,inverse} env \<Rightarrow> nat \<Rightarrow> 'a array1 \<Rightarrow> 'a array2 \<Rightarrow> 'a array2" where
  "diagonal_blocks e N alpha m =
     fold (\<lambda>i. fold (\<lambda>p m. let ii = i * 3 in
                   if alpha i \<noteq> 0 then upd2 m (ii + p) (ii + p) (1 / alpha i)
                   else upd2 m (ii + p) (ii + p) (DBL_MAX e)) [0..<3]) [0..<N] m"

text \<open>The inverse powers of the separation, with the guard for \<open>r = 0\<close>.\<close>

definition inverse_powers :: "'a::{zero,one,times,inverse} env \<Rightarrow> 'a \<Rightarrow> 'a \<times> 'a" where
  "inverse_powers e r =
     (if r = 0 then (DBL_MAX e, DBL_MAX e)
      else (1 / (r * r * r), 1 / (r * r * r * r * r)))"

text \<open>
  In the functions of this section the literals \<^verbatim>\<open>3.0\<close>, \<^verbatim>\<open>6.0\<close> and \<^verbatim>\<open>0.5\<close> are written
  \<open>1 + 1 + 1\<close>, \<open>1 + 1 + 1 + 1 + 1 + 1\<close> and \<open>1 / (1 + 1)\<close>: these are the numerals \<open>3\<close>, \<open>6\<close>
  and \<open>1 / 2\<close> in every numeral type and the same doubles in IEEE arithmetic (the sums
  and the quotient are exact), and they let the functions be read in a number type with
  rounding, whose addition is not associative and which therefore has no numerals.
  \<^verbatim>\<open>pow(d, 2)\<close> is the product \<open>d * d\<close>.
\<close>

definition damping_terms ::
  "'a::{one,plus,uminus,minus,times,inverse} env \<Rightarrow> 'a settings \<Rightarrow> 'a \<Rightarrow> 'a \<Rightarrow> 'a \<times> 'a" where
  "damping_terms e c r r2 =
     (if damping_type c = DAMPING_EXPONENTIAL then
        (1 - libm_exp e (- polar_damp c * r)
               * (1 / (1 + 1) * polar_damp c * polar_damp c * r2 + polar_damp c * r + 1),
         1 - libm_exp e (- polar_damp c * r)
               * (polar_damp c * polar_damp c * polar_damp c * r2 * r / (1 + 1 + 1 + 1 + 1 + 1)
                  + 1 / (1 + 1) * polar_damp c * polar_damp c * r2 + polar_damp c * r + 1))
      else (1, 1))"

text \<open>
  The body of the pair loop for \<open>i < j\<close>: the block \<open>(i, j)\<close> is computed entry by entry,
  then copied into the block \<open>(j, i)\<close>.
\<close>

definition tensor_pair ::
  "'a::{zero,one,plus,uminus,minus,times,inverse} env \<Rightarrow> 'a settings \<Rightarrow> 'a array2 \<Rightarrow>
     nat \<Rightarrow> nat \<Rightarrow> 'a array2 \<Rightarrow> 'a array2" where
  "tensor_pair e c x i j m =
     (let ii = i * 3; jj = j * 3;
          xi = x i; xj = x j;
          xjimage = closest_image e xi xj;
          r2 = (xi 0 - xjimage 0) * (xi 0 - xjimage 0)
             + (xi 1 - xjimage 1) * (xi 1 - xjimage 1)
             + (xi 2 - xjimage 2) * (xi 2 - xjimage 2);
          r = libm_sqrt e r2;
          (r3, r5) = inverse_powers e r;
          (damping_term1, damping_term2) = damping_terms e c r r2;
          m1 = fold (\<lambda>p. fold (\<lambda>q m.
                  let m' = upd2 m (ii + p) (jj + q)
                             (- (1 + 1 + 1) * (x i p - xjimage p) * (x i q - xjimage q)
                                * damping_term2 * r5)
                  in if p = q
                     then upd2 m' (ii + p) (jj + q) (m' (ii + p) (jj + q) + damping_term1 * r3)
                     else m') [0..<3]) [0..<3] m
      in fold (\<lambda>p. fold (\<lambda>q m. upd2 m (jj + p) (ii + q) (m (ii + p) (jj + q))) [0..<3])
           [0..<3] m1)"

definition tensor_pairs ::
  "'a::{zero,one,plus,uminus,minus,times,inverse} env \<Rightarrow> 'a settings \<Rightarrow> nat \<Rightarrow> 'a array2 \<Rightarrow>
     'a array2 \<Rightarrow> 'a array2" where
  "tensor_pairs e c N x m =
     fold (\<lambda>i. fold (\<lambda>j. tensor_pair e c x i j) [i + 1..<N]) [0..<N - 1] m"

definition build_dipole_field_matrix ::
  "'a::{zero,one,plus,uminus,minus,times,inverse} env \<Rightarrow> 'a settings \<Rightarrow> 'a state \<Rightarrow> 'a state" where
  "build_dipole_field_matrix e c s =
     (let N = nlocal s
      in s\<lparr>dipole_field_matrix :=
             tensor_pairs e c N (atom_x s)
               (diagonal_blocks e N (static_polarizability s)
                  (zero_matrix N (dipole_field_matrix s)))\<rparr>)"

section \<open>DipoleSolverIterative\<close>

subsection \<open>Ranking by bubble sort\<close>

text \<open>
  One pass of the inner loop over \<open>j\<close>: adjacent entries are swapped where the rank metric
  increases; the flag \<^verbatim>\<open>sorted\<close> stays set when no swap took place.
\<close>

definition bubble_pass :: "'a::ord array1 \<Rightarrow> nat \<Rightarrow> nat list \<Rightarrow> nat list \<times> bool" where
  "bubble_pass rm n r =
     fold (\<lambda>j (r, sorted_flag).
             if rm (r ! j) < rm (r ! (j + 1))
             then (r[j := r ! (j + 1), j + 1 := r ! j], False)
             else (r, sorted_flag)) [0..<n - 1] (r, True)"

text \<open>The outer loop, with \<open>k\<close> passes left; it is left early once a pass found the array sorted.\<close>

primrec rank_loop :: "'a::ord array1 \<Rightarrow> nat \<Rightarrow> nat \<Rightarrow> nat list \<Rightarrow> nat list" where
  "rank_loop rm n 0 r = r"
| "rank_loop rm n (Suc k) r =
     (case bubble_pass rm n r of (r', sorted_flag) \<Rightarrow> if sorted_flag then r' else rank_loop rm n k r')"

definition rank_dipoles :: "'a::ord settings \<Rightarrow> 'a state \<Rightarrow> 'a state" where
  "rank_dipoles c s =
     (let n = nlocal s; r = [0..<n]
      in s\<lparr>ranked_array := (if polar_gs_ranked c then rank_loop (rank_metric s) n n r else r)\<rparr>)"

subsection \<open>One pass of the solver loop\<close>

definition save_old_dipoles :: "'a::zero state \<Rightarrow> 'a state" where
  "save_old_dipoles s =
     fold (\<lambda>i. fold (\<lambda>p s. s\<lparr>mu_induced_old := upd2 (mu_induced_old s) i p (mu_induced s i p),
                              ef_induced := upd2 (ef_induced s) i p 0\<rparr>) [0..<3])
       [0..<nlocal s] s"

text \<open>The contraction of the field tensor with the dipoles, for the particle \<open>index\<close>.\<close>

definition contract_index :: "nat \<Rightarrow> 'a::{minus,times} state \<Rightarrow> 'a state" where
  "contract_index index s =
     (let ii = index * 3
      in fold (\<lambda>j s. let jj = j * 3 in
                 if index \<noteq> j
                 then fold (\<lambda>p. fold (\<lambda>q s.
                        s\<lparr>ef_induced := upd2 (ef_induced s) index p
                             (ef_induced s index p
                                - dipole_field_matrix s (ii + p) (jj + q) * mu_induced s j q)\<rparr>)
                        [0..<3]) [0..<3] s
                 else s) [0..<nlocal s] s)"

definition update_dipole :: "'a::{plus,times} settings \<Rightarrow> nat \<Rightarrow> 'a state \<Rightarrow> 'a state" where
  "update_dipole c index s =
     fold (\<lambda>p s.
        let s' = s\<lparr>mu_induced_new := upd2 (mu_induced_new s) index p
                      (static_polarizability s index * (ef_static s index p + ef_induced s index p))\<rparr>
        in if polar_gs c \<or> polar_gs_ranked c
           then s'\<lparr>mu_induced := upd2 (mu_induced s') index p (mu_induced_new s' index p)\<rparr>
           else s') [0..<3] s"

definition contract_dipoles :: "'a::{plus,minus,times} settings \<Rightarrow> 'a state \<Rightarrow> 'a state" where
  "contract_dipoles c s =
     fold (\<lambda>i s. let index = ranked_array s ! i
                 in update_dipole c index (contract_index index s)) [0..<nlocal s] s"

text \<open>
  The value of \<^verbatim>\<open>change\<close> that the precision test compares (the literal \<^verbatim>\<open>3.0\<close> is
  written \<open>1 + 1 + 1\<close>, as in the field matrix).
\<close>

definition dipole_change :: "'a::{zero,one,plus,minus,times,inverse} state \<Rightarrow> 'a" where
  "dipole_change s =
     (let change = fold (\<lambda>i. fold (\<lambda>p change.
                      change + (mu_induced_new s i p - mu_induced_old s i p)
                                 * (mu_induced_new s i p - mu_induced_old s i p)) [0..<3])
                     [0..<nlocal s] 0
      in change / (double_of_nat (nlocal s) * (1 + 1 + 1)))"

definition precision_test ::
  "'a::{zero,one,plus,minus,times,inverse,ord} settings \<Rightarrow> 'a state \<Rightarrow> 'a state" where
  "precision_test c s =
     s\<lparr>keep_iterating := (dipole_change s > polar_precision c * polar_precision c),
       precision_tests := Suc (precision_tests s)\<rparr>"

definition save_dipoles :: "'a state \<Rightarrow> 'a state" where
  "save_dipoles s =
     fold (\<lambda>i. fold (\<lambda>p s. s\<lparr>mu_induced := upd2 (mu_induced s) i p (mu_induced_new s i p)\<rparr>)
                 [0..<3]) [0..<nlocal s] s"

definition reset_dipoles :: "'a::times state \<Rightarrow> 'a state" where
  "reset_dipoles s =
     fold (\<lambda>i. fold (\<lambda>p s. s\<lparr>mu_induced := upd2 (mu_induced s) i p
                                 (static_polarizability s i * ef_static s i p)\<rparr>)
                 [0..<3]) [0..<nlocal s] s"

text \<open>
  The rest of the loop body after the test: the dipoles are saved for the next pass, the
  counter is advanced, and the divergence branch resets, warns and returns.  The first
  component of the result tells whether the function returned.
\<close>

definition finish_pass :: "'a::times settings \<Rightarrow> 'a state \<Rightarrow> bool \<times> 'a state" where
  "finish_pass c s =
     (let s1 = save_dipoles s;
          s2 = s1\<lparr>iterations := iterations s1 + 1\<rparr>
      in if iterations s2 > iterations_max c
         then (True, (reset_dipoles s2)\<lparr>warned := True\<rparr>)
         else (False, s2))"

text \<open>The first half of the loop body: snapshot, contraction and update of every dipole.\<close>

definition sweep_once :: "'a::{zero,plus,minus,times} settings \<Rightarrow> 'a state \<Rightarrow> 'a state" where
  "sweep_once c s = (contract_dipoles c (save_old_dipoles s))\<lparr>sweeps := Suc (sweeps s)\<rparr>"

definition solver_pass ::
  "'a::{zero,one,plus,minus,times,inverse,ord} settings \<Rightarrow> 'a state \<Rightarrow> bool \<times> 'a state" where
  "solver_pass c s =
     (let s1 = sweep_once c s
      in if \<not> fixed_iteration c then finish_pass c (precision_test c s1)
         else if iterations s1 \<ge> iterations_max c then (True, s1)
         else finish_pass c s1)"

subsection \<open>Fields that the steps of a pass leave alone\<close>

lemma fold_frame: "(\<And>x s. sel (f x s) = sel s) \<Longrightarrow> sel (fold f xs s) = sel s"
  by (induction xs arbitrary: s) simp_all

lemmas fold_frame_simps =
  fold_frame[where sel = nlocal] fold_frame[where sel = iterations]
  fold_frame[where sel = static_polarizability] fold_frame[where sel = ef_static]
  fold_frame[where sel = dipole_field_matrix] fold_frame[where sel = ranked_array]
  fold_frame[where sel = keep_iterating] fold_frame[where sel = warned]
  fold_frame[where sel = sweeps] fold_frame[where sel = precision_tests]
  fold_frame[where sel = mu_induced] fold_frame[where sel = mu_induced_new]
  fold_frame[where sel = mu_induced_old] fold_frame[where sel = ef_induced]

lemma save_old_dipoles_frame [simp]:
  "nlocal (save_old_dipoles s) = nlocal s"
  "iterations (save_old_dipoles s) = iterations s"
  "static_polarizability (save_old_dipoles s) = static_polarizability s"
  "ef_static (save_old_dipoles s) = ef_static s"
  "dipole_field_matrix (save_old_dipoles s) = dipole_field_matrix s"
  "ranked_array (save_old_dipoles s) = ranked_array s"
  "keep_iterating (save_old_dipoles s) = keep_iterating s"
  "warned (save_old_dipoles s) = warned s"
  "sweeps (save_old_dipoles s) = sweeps s"
  "precision_tests (save_old_dipoles s) = precision_tests s"
  "mu_induced (save_old_dipoles s) = mu_induced s"
  "mu_induced_new (save_old_dipoles s) = mu_induced_new s"
  by (simp_all add: save_old_dipoles_def fold_frame_simps)

lemma contract_index_frame [simp]:
  "nlocal (contract_index k s) = nlocal s"
  "iterations (contract_index k s) = iterations s"
  "static_polarizability (contract_index k s) = static_polarizability s"
  "ef_static (contract_index k s) = ef_static s"
  "dipole_field_matrix (contract_index k s) = dipole_field_matrix s"
  "ranked_array (contract_index k s) = ranked_array s"
  "keep_iterating (contract_index k s) = keep_iterating s"
  "warned (contract_index k s) = warned s"
  "sweeps (contract_index k s) = sweeps s"
  "precision_tests (contract_index k s) = precision_tests s"
  "mu_induced (contract_index k s) = mu_induced s"
  "mu_induced_new (contract_index k s) = mu_induced_new s"
  "mu_induced_old (contract_index k s) = mu_induced_old s"
  by (simp_all add: contract_index_def fold_frame_simps Let_def)

lemma update_dipole_frame [simp]:
  "nlocal (update_dipole c k s) = nlocal s"
  "iterations (update_dipole c k s) = iterations s"
  "static_polarizability (update_dipole c k s) = static_polarizability s"
  "ef_static (update_dipole c k s) = ef_static s"
  "dipole_field_matrix (update_dipole c k s) = dipole_field_matrix s"
  "ranked_array (update_dipole c k s) = ranked_array s"
  "keep_iterating (update_dipole c k s) = keep_iterating s"
  "warned (update_dipole c k s) = warned s"
  "sweeps (update_dipole c k s) = sweeps s"
  "precision_tests (update_dipole c k s) = precision_tests s"
  "ef_induced (update_dipole c k s) = ef_induced s"
  "mu_induced_old (update_dipole c k s) = mu_induced_old s"
  by (simp_all add: update_dipole_def fold_frame_simps Let_def)

lemma contract_dipoles_frame [simp]:
  "nlocal (contract_dipoles c s) = nlocal s"
  "iterations (contract_dipoles c s) = iterations s"
  "static_polarizability (contract_dipoles c s) = static_polarizability s"
  "ef_static (contract_dipoles c s) = ef_static s"
  "dipole_field_matrix (contract_dipoles c s) = dipole_field_matrix s"
  "ranked_array (contract_dipoles c s) = ranked_array s"
  "keep_iterating (contract_dipoles c s) = keep_iterating s"
  "warned (contract_dipoles c s) = warned s"
  "sweeps (contract_dipoles c s) = sweeps s"
  "precision_tests (contract_dipoles c s) = precision_tests s"
  "mu_induced_old (contract_dipoles c s) = mu_induced_old s"
  by (simp_all add: contract_dipoles_def fold_frame_simps Let_def)

lemma save_dipoles_frame [simp]:
  "nlocal (save_dipoles s) = nlocal s"
  "iterations (save_dipoles s) = iterations s"
  "static_polarizability (save_dipoles s) = static_polarizability s"
  "ef_static (save_dipoles s) = ef_static s"
  "dipole_field_matrix (save_dipoles s) = dipole_field_matrix s"
  "ranked_array (save_dipoles s) = ranked_array s"
  "keep_iterating (save_dipoles s) = keep_iterating s"
  "warned (save_dipoles s) = warned s"
  "sweeps (save_dipoles s) = sweeps s"
  "precision_tests (save_dipoles s) = precision_tests s"
  "mu_induced_old (save_dipoles s) = mu_induced_old s"
  "mu_induced_new (save_dipoles s) = mu_induced_new s"
  "ef_induced (save_dipoles s) = ef_induced s"
  by (simp_all add: save_dipoles_def fold_frame_simps)

lemma reset_dipoles_frame [simp]:
  "nlocal (reset_dipoles s) = nlocal s"
  "iterations (reset_dipoles s) = iterations s"
  "static_polarizability (reset_dipoles s) = static_polarizability s"
  "ef_static (reset_dipoles s) = ef_static s"
  "dipole_field_matrix (reset_dipoles s) = dipole_field_matrix s"
  "ranked_array (reset_dipoles s) = ranked_array s"
  "keep_iterating (reset_dipoles s) = keep_iterating s"
  "warned (reset_dipoles s) = warned s"
  "sweeps (reset_dipoles s) = sweeps s"
  "precision_tests (reset_dipoles s) = precision_tests s"
  "mu_induced_old (reset_dipoles s) = mu_induced_old s"
  "mu_induced_new (reset_dipoles s) = mu_induced_new s"
  "ef_induced (reset_dipoles s) = ef_induced s"
  by (simp_all add: reset_dipoles_def fold_frame_simps)

lemma precision_test_frame [simp]:
  "nlocal (precision_test c s) = nlocal s"
  "iterations (precision_test c s) = iterations s"
  "static_polarizability (precision_test c s) = static_polarizability s"
  "ef_static (precision_test c s) = ef_static s"
  "dipole_field_matrix (precision_test c s) = dipole_field_matrix s"
  "ranked_array (precision_test c s) = ranked_array s"
  "warned (precision_test c s) = warned s"
  "sweeps (precision_test c s) = sweeps s"
  "precision_tests (precision_test c s) = Suc (precision_tests s)"
  "mu_induced (precision_test c s) = mu_induced s"
  "mu_induced_old (precision_test c s) = mu_induced_old s"
  "mu_induced_new (precision_test c s) = mu_induced_new s"
  "ef_induced (precision_test c s) = ef_induced s"
  by (simp_all add: precision_test_def)

lemma sweep_once_frame [simp]:
  "nlocal (sweep_once c s) = nlocal s"
  "iterations (sweep_once c s) = iterations s"
  "keep_iterating (sweep_once c s) = keep_iterating s"
  "warned (sweep_once c s) = warned s"
  "sweeps (sweep_once c s) = Suc (sweeps s)"
  "precision_tests (sweep_once c s) = precision_tests s"
  "static_polarizability (sweep_once c s) = static_polarizability s"
  "ef_static (sweep_once c s) = ef_static s"
  "dipole_field_matrix (sweep_once c s) = dipole_field_matrix s"
  "ranked_array (sweep_once c s) = ranked_array s"
  by (simp_all add: sweep_once_def)

lemma finish_pass_continue:
  "finish_pass c s = (False, s') \<Longrightarrow>
     iterations s' = iterations s + 1 \<and> iterations s' \<le> iterations_max c"
  by (auto simp: finish_pass_def Let_def split: if_splits)

lemma solver_pass_continue:
  "solver_pass c s = (False, s') \<Longrightarrow>
     iterations s' = iterations s + 1 \<and> iterations s' \<le> iterations_max c"
  by (auto simp: solver_pass_def Let_def split: if_splits dest!: finish_pass_continue)

subsection \<open>The loop and the solver\<close>

text \<open>
  \<^verbatim>\<open>while (keep_iterating) { ... }\<close>: a pass either returns from the function or hands
  the next state to the loop test.  The counter grows with every pass that continues and
  a pass continues only below \<^verbatim>\<open>iterations_max\<close>, which bounds the loop.
\<close>

function solver_loop ::
  "'a::{zero,one,plus,minus,times,inverse,ord} settings \<Rightarrow> 'a state \<Rightarrow> 'a state" where
  "solver_loop c s =
     (if keep_iterating s
      then (case solver_pass c s of
              (True, s') \<Rightarrow> s'
            | (False, s') \<Rightarrow> solver_loop c s')
      else s)"
  by pat_completeness auto
termination
  by (relation "measure (\<lambda>(c, s). nat (iterations_max c + 1 - iterations s))")
     (auto dest!: solver_pass_continue[OF sym])

declare solver_loop.simps [simp del]

text \<open>The function returns the counter; the state it leaves is the second component.\<close>

definition DipoleSolverIterative ::
  "'a::{zero,one,plus,uminus,minus,times,inverse,ord} env \<Rightarrow> 'a settings \<Rightarrow> 'a state \<Rightarrow>
     int \<times> 'a state" where
  "DipoleSolverIterative e c s =
     (let s1 = build_dipole_field_matrix e c s;
          s2 = s1\<lparr>keep_iterating := True, iterations := 0\<rparr>;
          s3 = rank_dipoles c s2;
          s4 = solver_loop c s3
      in (iterations s4, s4))"

section \<open>compute: static field, first guess, forces\<close>

text \<open>
  Of \<^verbatim>\<open>compute\<close> the embedding has the phases that concern the induced dipoles.  The
  neighbour loop of the Lennard-Jones and real-space Coulomb forces, the rank metric, the
  tallies of \<^verbatim>\<open>ev_tally_xyz\<close> and the debug output are left out; none of them writes a
  field that the phases below read, except the forces, which are only added to.
\<close>

definition add2 :: "'a::plus array2 \<Rightarrow> nat \<Rightarrow> nat \<Rightarrow> 'a \<Rightarrow> 'a array2" where
  "add2 a i p v = upd2 a i p (a i p + v)"

definition sub2 :: "'a::minus array2 \<Rightarrow> nat \<Rightarrow> nat \<Rightarrow> 'a \<Rightarrow> 'a array2" where
  "sub2 a i p v = upd2 a i p (a i p - v)"

definition clear_static_field :: "'a::zero state \<Rightarrow> 'a state" where
  "clear_static_field s =
     fold (\<lambda>i s. s\<lparr>ef_static := upd2 (upd2 (upd2 (ef_static s) i 0 0) i 1 0) i 2 0\<rparr>)
       [0..<nlocal s] s"

text \<open>The molecule rule, as both pair loops test it.\<close>

definition molecule_rule :: "(nat \<Rightarrow> int) \<Rightarrow> nat \<Rightarrow> nat \<Rightarrow> bool" where
  "molecule_rule mol i j = (mol i \<noteq> mol j \<or> mol i = 0)"

definition f_shift :: "'a::{one,uminus,times,inverse} settings \<Rightarrow> 'a" where
  "f_shift c = - 1 / (cut_coul c * cut_coul c)"

text \<open>The Wolf field of the pair \<open>(i, j)\<close>, added to both particles.\<close>

definition static_field_update ::
  "'a::{one,plus,minus,uminus,times,inverse} env \<Rightarrow> 'a settings \<Rightarrow> nat \<Rightarrow> nat \<Rightarrow>
     'a \<Rightarrow> 'a \<Rightarrow> 'a \<Rightarrow> 'a \<Rightarrow> 'a state \<Rightarrow> 'a state" where
  "static_field_update e c i j delx dely delz rsq s =
     (let qtmp = atom_q s i;
          r = libm_sqrt e rsq;
          dvdrr = 1 / rsq + f_shift c;
          ef_temp = dvdrr * 1 / r;
          ef = add2 (ef_static s) i 0 (ef_temp * atom_q s j * delx);
          ef = add2 ef i 1 (ef_temp * atom_q s j * dely);
          ef = add2 ef i 2 (ef_temp * atom_q s j * delz);
          ef = sub2 ef j 0 (ef_temp * qtmp * delx);
          ef = sub2 ef j 1 (ef_temp * qtmp * dely);
          ef = sub2 ef j 2 (ef_temp * qtmp * delz)
      in s\<lparr>ef_static := ef\<rparr>)"

definition static_field_pair ::
  "'a::{one,plus,minus,uminus,times,inverse,ord} env \<Rightarrow> 'a settings \<Rightarrow> nat \<Rightarrow> nat \<Rightarrow>
     'a state \<Rightarrow> 'a state" where
  "static_field_pair e c i j s =
     (let xjimage = closest_image e (atom_x s i) (atom_x s j);
          delx = atom_x s i 0 - xjimage 0;
          dely = atom_x s i 1 - xjimage 1;
          delz = atom_x s i 2 - xjimage 2;
          rsq = delx * delx + dely * dely + delz * delz
      in if rsq \<le> cut_coulsq c
         then if molecule_rule (molecule s) i j
              then static_field_update e c i j delx dely delz rsq s
              else s
         else s)"

definition static_field ::
  "'a::{zero,one,plus,minus,uminus,times,inverse,ord} env \<Rightarrow> 'a settings \<Rightarrow>
     'a state \<Rightarrow> 'a state" where
  "static_field e c s =
     fold (\<lambda>i. fold (\<lambda>j. static_field_pair e c i j) [i + 1..<nlocal s]) [0..<nlocal s]
       (clear_static_field s)"

text \<open>
  The scaling of the static field and the first guess \<open>alpha * E * gamma\<close>, which is
  skipped when \<^verbatim>\<open>use_previous\<close> is on.
\<close>

definition initial_guess :: "'a::times env \<Rightarrow> 'a settings \<Rightarrow> 'a state \<Rightarrow> 'a state" where
  "initial_guess e c s =
     (let elementary_charge_to_sqrt_energy_length = libm_sqrt e (qqrd2e c)
      in fold (\<lambda>i s.
           let ef = ef_static s;
               ef = upd2 ef i 0 (ef i 0 * elementary_charge_to_sqrt_energy_length);
               ef = upd2 ef i 1 (ef i 1 * elementary_charge_to_sqrt_energy_length);
               ef = upd2 ef i 2 (ef i 2 * elementary_charge_to_sqrt_energy_length);
               s = s\<lparr>ef_static := ef\<rparr>
           in if \<not> use_previous c
              then let mu = mu_induced s;
                       mu = upd2 mu i 0 (static_polarizability s i * ef_static s i 0);
                       mu = upd2 mu i 1 (static_polarizability s i * ef_static s i 1);
                       mu = upd2 mu i 2 (static_polarizability s i * ef_static s i 2);
                       mu = upd2 mu i 0 (mu i 0 * polar_gamma c);
                       mu = upd2 mu i 1 (mu i 1 * polar_gamma c);
                       mu = upd2 mu i 2 (mu i 2 * polar_gamma c)
                   in s\<lparr>mu_induced := mu\<rparr>
              else s) [0..<nlocal s] s)"

text \<open>The call of the solver, which \<^verbatim>\<open>zodid\<close> switches off.\<close>

definition solve_dipoles ::
  "'a::{zero,one,plus,uminus,minus,times,inverse,ord} env \<Rightarrow> 'a settings \<Rightarrow> 'a state \<Rightarrow>
     int \<times> 'a state" where
  "solve_dipoles e c s = (if \<not> zodid c then DipoleSolverIterative e c s else (0, s))"

subsection \<open>The dipole forces of a pair\<close>

text \<open>
  The bracket that both charge-dipole blocks multiply by \<^verbatim>\<open>common_factor\<close>: the
  components for a dipole \<open>mu\<close> and a displacement \<open>(delx, dely, delz)\<close>.
\<close>

definition charge_dipole_terms ::
  "'a::{numeral,plus,minus,uminus,times} \<Rightarrow> 'a array1 \<Rightarrow> 'a \<Rightarrow> 'a \<Rightarrow> 'a \<Rightarrow> 'a \<Rightarrow> 'a \<Rightarrow>
     'a \<times> 'a \<times> 'a" where
  "charge_dipole_terms common_factor mu delx dely delz r2inv fs =
     (let xsq = delx * delx; ysq = dely * dely; zsq = delz * delz
      in (common_factor * (mu 0 * ((- 2 * xsq + ysq + zsq) * r2inv + fs * (ysq + zsq))
                         + mu 1 * (- 3 * delx * dely * r2inv - fs * delx * dely)
                         + mu 2 * (- 3 * delx * delz * r2inv - fs * delx * delz)),
          common_factor * (mu 0 * (- 3 * delx * dely * r2inv - fs * delx * dely)
                         + mu 1 * ((- 2 * ysq + xsq + zsq) * r2inv + fs * (xsq + zsq))
                         + mu 2 * (- 3 * dely * delz * r2inv - fs * dely * delz)),
          common_factor * (mu 0 * (- 3 * delx * delz * r2inv - fs * delx * delz)
                         + mu 1 * (- 3 * dely * delz * r2inv - fs * dely * delz)
                         + mu 2 * ((- 2 * zsq + xsq + ysq) * r2inv + fs * (xsq + ysq)))))"

text \<open>
  The charge-dipole terms of the pair \<open>(i, j)\<close>, the body of the two tests below: they
  start from the force accumulator \<open>(fx, fy, fz)\<close> and the energy \<open>u_ef\<close> and return them
  updated.  The locals \<^verbatim>\<open>rsq\<close>, \<^verbatim>\<open>r2inv\<close>, \<^verbatim>\<open>rinv\<close>, \<^verbatim>\<open>r\<close> and \<^verbatim>\<open>r3inv\<close> are those that
  \<^verbatim>\<open>compute\<close> sets before the tests.
\<close>

definition charge_dipole_update ::
  "'a::{zero,numeral,plus,minus,uminus,times,inverse,ord} env \<Rightarrow> 'a settings \<Rightarrow> 'a state \<Rightarrow>
     nat \<Rightarrow> nat \<Rightarrow> 'a \<Rightarrow> 'a \<Rightarrow> 'a \<Rightarrow> 'a \<times> 'a \<times> 'a \<times> 'a \<Rightarrow> 'a \<times> 'a \<times> 'a \<times> 'a" where
  "charge_dipole_update e c s i j delx dely delz acc =
     (let qtmp = atom_q s i;
          mu = mu_induced s;
          elementary_charge_to_sqrt_energy_length = libm_sqrt e (qqrd2e c);
          rsq = delx * delx + dely * dely + delz * delz;
          r2inv = 1 / rsq;
          rinv = libm_sqrt e r2inv;
          r = 1 / rinv;
          r3inv = r2inv * rinv;
          dvdrr = 1 / rsq + f_shift c;
          ef_temp = dvdrr * 1 / r * elementary_charge_to_sqrt_energy_length;
          acc =
            (if static_polarizability s i \<noteq> 0 \<and> atom_q s j \<noteq> 0
             then (case acc of (fx, fy, fz, u_ef) \<Rightarrow>
               let common_factor =
                     atom_q s j * elementary_charge_to_sqrt_energy_length * r3inv;
                   (tx, ty, tz) = charge_dipole_terms common_factor (mu i)
                                    delx dely delz r2inv (f_shift c);
                   ef_0 = ef_temp * atom_q s j * delx;
                   ef_1 = ef_temp * atom_q s j * dely;
                   ef_2 = ef_temp * atom_q s j * delz
               in (fx + tx, fy + ty, fz + tz,
                   if eflag c
                   then u_ef - (mu i 0 * ef_0 + mu i 1 * ef_1 + mu i 2 * ef_2)
                   else u_ef))
             else acc)
      in (if static_polarizability s j \<noteq> 0 \<and> qtmp \<noteq> 0
          then (case acc of (fx, fy, fz, u_ef) \<Rightarrow>
            let common_factor =
                  qtmp * elementary_charge_to_sqrt_energy_length * r3inv;
                (tx, ty, tz) = charge_dipole_terms common_factor (mu j)
                                 delx dely delz r2inv (f_shift c);
                ef_0 = ef_temp * qtmp * delx;
                ef_1 = ef_temp * qtmp * dely;
                ef_2 = ef_temp * qtmp * delz
            in (fx - tx, fy - ty, fz - tz,
                if eflag c
                then u_ef + (mu j 0 * ef_0 + mu j 1 * ef_1 + mu j 2 * ef_2)
                else u_ef))
          else acc))"

text \<open>
  The charge-dipole block of the pair \<open>(i, j)\<close>: the terms above stand under the cutoff
  test and the molecule rule.
\<close>

definition charge_dipole_block ::
  "'a::{zero,numeral,plus,minus,uminus,times,inverse,ord} env \<Rightarrow> 'a settings \<Rightarrow> 'a state \<Rightarrow>
     nat \<Rightarrow> nat \<Rightarrow> 'a \<Rightarrow> 'a \<Rightarrow> 'a \<Rightarrow> 'a \<times> 'a \<times> 'a \<times> 'a \<Rightarrow> 'a \<times> 'a \<times> 'a \<times> 'a" where
  "charge_dipole_block e c s i j delx dely delz acc =
     (let rsq = delx * delx + dely * dely + delz * delz
      in if rsq < cut_coulsq c
         then if molecule_rule (molecule s) i j
              then charge_dipole_update e c s i j delx dely delz acc
              else acc
         else acc)"

text \<open>
  The dipole-dipole block, with and without exponential damping.  It is guarded by the
  two polarizabilities only: neither the cutoff nor the molecule rule is tested.
\<close>

definition dipole_dipole_block ::
  "'a::{zero,numeral,plus,minus,uminus,times,inverse} env \<Rightarrow> 'a settings \<Rightarrow> 'a state \<Rightarrow>
     nat \<Rightarrow> nat \<Rightarrow> 'a \<Rightarrow> 'a \<Rightarrow> 'a \<Rightarrow> 'a \<times> 'a \<times> 'a \<times> 'a \<Rightarrow> 'a \<times> 'a \<times> 'a \<times> 'a" where
  "dipole_dipole_block e c s i j delx dely delz acc =
     (let mu = mu_induced s;
          rsq = delx * delx + dely * dely + delz * delz;
          r2inv = 1 / rsq;
          rinv = libm_sqrt e r2inv;
          r = 1 / rinv;
          r3inv = r2inv * rinv
      in if static_polarizability s i \<noteq> 0 \<and> static_polarizability s j \<noteq> 0
         then (case acc of (fx, fy, fz, u_dd) \<Rightarrow>
           let r5inv = r3inv * r2inv;
               r7inv = r5inv * r2inv;
               pdotp = mu i 0 * mu j 0 + mu i 1 * mu j 1 + mu i 2 * mu j 2;
               pidotr = mu i 0 * delx + mu i 1 * dely + mu i 2 * delz;
               pjdotr = mu j 0 * delx + mu j 1 * dely + mu j 2 * delz
           in if damping_type c = DAMPING_EXPONENTIAL
              then let a = polar_damp c;
                       term_1 = libm_exp e (- a * r);
                       term_2 = 1 + a * r + 1 / 2 * a * a * r * r;
                       term_3 = 1 + a * r + 1 / 2 * a * a * r * r + 1 / 6 * a * a * a * r * r * r;
                       pre1 = 3 * r5inv * pdotp * (1 - term_1 * term_2)
                              - 15 * r7inv * pidotr * pjdotr * (1 - term_1 * term_3);
                       pre2 = 3 * r5inv * pjdotr * (1 - term_1 * term_3);
                       pre3 = 3 * r5inv * pidotr * (1 - term_1 * term_3);
                       pre4 = - pdotp * r3inv
                              * (- term_1 * (a * rinv + a * a) + term_1 * a * term_2 * rinv);
                       pre5 = 3 * pidotr * pjdotr * r5inv
                              * (- term_1 * (a * rinv + a * a + 1 / 2 * r * a * a * a)
                                 + term_1 * a * term_3 * rinv)
                   in (fx + (pre1 * delx + pre2 * mu i 0 + pre3 * mu j 0 + pre4 * delx + pre5 * delx),
                       fy + (pre1 * dely + pre2 * mu i 1 + pre3 * mu j 1 + pre4 * dely + pre5 * dely),
                       fz + (pre1 * delz + pre2 * mu i 2 + pre3 * mu j 2 + pre4 * delz + pre5 * delz),
                       if eflag c
                       then u_dd + (r3inv * pdotp * (1 - term_1 * term_2)
                                    - 3 * r5inv * pidotr * pjdotr * (1 - term_1 * term_3))
                       else u_dd)
              else let pre1 = 3 * r5inv * pdotp - 15 * r7inv * pidotr * pjdotr;
                       pre2 = 3 * r5inv * pjdotr;
                       pre3 = 3 * r5inv * pidotr
                   in (fx + (pre1 * delx + pre2 * mu i 0 + pre3 * mu j 0),
                       fy + (pre1 * dely + pre2 * mu i 1 + pre3 * mu j 1),
                       fz + (pre1 * delz + pre2 * mu i 2 + pre3 * mu j 2),
                       if eflag c
                       then u_dd + (r3inv * pdotp - 3 * r5inv * pidotr * pjdotr)
                       else u_dd))
         else acc)"

text \<open>The force of a pair, added to the first particle and subtracted from the second.\<close>

definition apply_pair_force ::
  "'a::{plus,minus} array2 \<Rightarrow> nat \<Rightarrow> nat \<Rightarrow> 'a \<times> 'a \<times> 'a \<Rightarrow> 'a array2" where
  "apply_pair_force f i j force =
     (case force of (forcecoulx, forcecouly, forcecoulz) \<Rightarrow>
        let f = add2 f i 0 forcecoulx;
            f = add2 f i 1 forcecouly;
            f = add2 f i 2 forcecoulz;
            f = sub2 f j 0 forcecoulx;
            f = sub2 f j 1 forcecouly;
            f = sub2 f j 2 forcecoulz
        in f)"

text \<open>
  The body of the inner loop: the accumulator \<^verbatim>\<open>forcecoul\<close> starts at zero, collects
  the two blocks and is applied to both particles.
\<close>

definition polar_pair ::
  "'a::{zero,numeral,plus,minus,uminus,times,inverse,ord} env \<Rightarrow> 'a settings \<Rightarrow> nat \<Rightarrow> nat \<Rightarrow>
     'a state \<Rightarrow> 'a state" where
  "polar_pair e c i j s =
     (let xjimage = closest_image e (atom_x s i) (atom_x s j);
          delx = atom_x s i 0 - xjimage 0;
          dely = atom_x s i 1 - xjimage 1;
          delz = atom_x s i 2 - xjimage 2;
          (fx, fy, fz, u_ef) = charge_dipole_block e c s i j delx dely delz (0, 0, 0, u_polar_ef s);
          (forcecoulx, forcecouly, forcecoulz, u_dd) =
             dipole_dipole_block e c s i j delx dely delz (fx, fy, fz, u_polar_dd s)
      in s\<lparr>atom_f := apply_pair_force (atom_f s) i j (forcecoulx, forcecouly, forcecoulz),
           u_polar_ef := u_ef, u_polar_dd := u_dd\<rparr>)"

text \<open>The self energy of particle \<open>i\<close>, guarded by its polarizability.\<close>

definition self_energy :: "'a::{zero,numeral,plus,times,inverse} settings \<Rightarrow> nat \<Rightarrow> 'a state \<Rightarrow> 'a state" where
  "self_energy c i s =
     (let mu = mu_induced s
      in if eflag c \<and> static_polarizability s i \<noteq> 0
         then s\<lparr>u_polar_self := u_polar_self s
                  + 1 / 2 * (mu i 0 * mu i 0 + mu i 1 * mu i 1 + mu i 2 * mu i 2)
                    / static_polarizability s i\<rparr>
         else s)"

definition polar_forces ::
  "'a::{zero,numeral,plus,minus,uminus,times,inverse,ord} env \<Rightarrow> 'a settings \<Rightarrow>
     'a state \<Rightarrow> 'a state" where
  "polar_forces e c s =
     (let n = nlocal s;
          s0 = s\<lparr>u_polar_self := 0, u_polar_ef := 0, u_polar_dd := 0\<rparr>;
          s1 = fold (\<lambda>i s. fold (\<lambda>j. polar_pair e c i j) [i + 1..<n] (self_energy c i s))
                 [0..<n] s0
      in s1\<lparr>eng_pol := u_polar_self s1 + u_polar_ef s1 + u_polar_dd s1\<rparr>)"

section \<open>Lemmas about the field matrix\<close>

lemma upt3: "[0..<3] = [0, 1, 2]"
  by (simp add: upt_rec)

lemma upd2_apply: "upd2 a i p v i' p' = (if i' = i \<and> p' = p then v else a i' p')"
  by (simp add: upd2_def)

lemma upd2_upd2 [simp]: "upd2 (upd2 a i p v) i p w = upd2 a i p w"
  by (simp add: upd2_def)

lemma fold_upt_Suc: "fold f [0..<Suc n] m = f n (fold f [0..<n] m)"
  by simp

lemma fold_row_write:
  "fold (\<lambda>q m. upd2 m a (ca + q) (g q)) [0..<n] m a' b' =
     (if a' = a \<and> ca \<le> b' \<and> b' < ca + n then g (b' - ca) else m a' b')"
  by (induction n) (auto simp: upd2_apply)

lemma fold_block_write:
  "fold (\<lambda>p. fold (\<lambda>q m. upd2 m (ra + p) (ca + q) (g p q)) [0..<n]) [0..<k] m a b =
     (if ra \<le> a \<and> a < ra + k \<and> ca \<le> b \<and> b < ca + n then g (a - ra) (b - ca) else m a b)"
  by (induction k) (auto simp: fold_row_write)

text \<open>copying a block whose rows are not written\<close>

lemma fold_row_copy:
  assumes "c \<noteq> a"
  shows "fold (\<lambda>q m. upd2 m a (ca + q) (m c (cb + q))) [0..<n] m a' b' =
     (if a' = a \<and> ca \<le> b' \<and> b' < ca + n then m c (cb + (b' - ca)) else m a' b')"
proof -
  define f where "f = (\<lambda>q (m :: 'a array2). upd2 m a (ca + q) (m c (cb + q)))"
  have f: "f q m a' b' = (if a' = a \<and> b' = ca + q then m c (cb + q) else m a' b')" for q m a' b'
    by (simp add: f_def upd2_apply)
  have row: "fold f [0..<n] m c y = m c y" for y n
  proof (induction n)
    case 0 then show ?case by simp
  next
    case (Suc n)
    have "fold f [0..<Suc n] m c y = f n (fold f [0..<n] m) c y" by simp
    also have "\<dots> = fold f [0..<n] m c y" using assms by (subst f) simp
    finally show ?case using Suc by simp
  qed
  have "fold f [0..<n] m a' b' =
     (if a' = a \<and> ca \<le> b' \<and> b' < ca + n then m c (cb + (b' - ca)) else m a' b')"
  proof (induction n)
    case 0 then show ?case by auto
  next
    case (Suc n)
    have "fold f [0..<Suc n] m a' b' = f n (fold f [0..<n] m) a' b'" by simp
    also have "\<dots> = (if a' = a \<and> b' = ca + n then fold f [0..<n] m c (cb + n)
                       else fold f [0..<n] m a' b')" by (rule f)
    finally show ?case using Suc row by auto
  qed
  then show ?thesis by (simp add: f_def)
qed

lemma fold_block_copy:
  assumes "\<And>p p'. p < k \<Longrightarrow> p' < k \<Longrightarrow> rb + p \<noteq> ra + p'"
  shows "fold (\<lambda>p. fold (\<lambda>q m. upd2 m (ra + p) (ca + q) (m (rb + p) (cb + q))) [0..<n]) [0..<k] m a b =
     (if ra \<le> a \<and> a < ra + k \<and> ca \<le> b \<and> b < ca + n
      then m (rb + (a - ra)) (cb + (b - ca)) else m a b)"
proof -
  define f where "f = (\<lambda>p (m :: 'a array2).
     fold (\<lambda>q m. upd2 m (ra + p) (ca + q) (m (rb + p) (cb + q))) [0..<n] m)"
  have f: "f p m a b =
     (if a = ra + p \<and> ca \<le> b \<and> b < ca + n then m (rb + p) (cb + (b - ca)) else m a b)"
    if "p < k" for p m a b
    unfolding f_def using assms[OF that that] by (simp add: fold_row_copy)
  have rows: "fold f [0..<j] m (rb + p) y = m (rb + p) y" if "p < k" "j \<le> k" for j p y
    using that(2)
  proof (induction j)
    case 0 then show ?case by simp
  next
    case (Suc j)
    have "fold f [0..<Suc j] m (rb + p) y = f j (fold f [0..<j] m) (rb + p) y" by simp
    also have "\<dots> = fold f [0..<j] m (rb + p) y"
      using assms[of p j] that(1) Suc.prems by (subst f) simp_all
    finally show ?case using Suc by simp
  qed
  have "fold f [0..<j] m a b =
     (if ra \<le> a \<and> a < ra + j \<and> ca \<le> b \<and> b < ca + n
      then m (rb + (a - ra)) (cb + (b - ca)) else m a b)" if "j \<le> k" for j
    using that
  proof (induction j)
    case 0 then show ?case by auto
  next
    case (Suc j)
    have "fold f [0..<Suc j] m a b = f j (fold f [0..<j] m) a b" by simp
    also have "\<dots> = (if a = ra + j \<and> ca \<le> b \<and> b < ca + n
                       then fold f [0..<j] m (rb + j) (cb + (b - ca))
                       else fold f [0..<j] m a b)"
      using Suc.prems by (subst f) simp_all
    finally show ?case using Suc rows[of j j] by auto
  qed
  from this[of k] show ?thesis by (simp add: f_def)
qed


definition tensor_entry ::
  "'a::{zero,one,plus,uminus,minus,times,inverse} env \<Rightarrow> 'a settings \<Rightarrow> 'a array2 \<Rightarrow>
     nat \<Rightarrow> nat \<Rightarrow> nat \<Rightarrow> nat \<Rightarrow> 'a" where
  "tensor_entry e c x i j p q =
     (let xi = x i; xj = x j;
          xjimage = closest_image e xi xj;
          r2 = (xi 0 - xjimage 0) * (xi 0 - xjimage 0)
             + (xi 1 - xjimage 1) * (xi 1 - xjimage 1)
             + (xi 2 - xjimage 2) * (xi 2 - xjimage 2);
          r = libm_sqrt e r2;
          r3 = fst (inverse_powers e r); r5 = snd (inverse_powers e r);
          damping_term1 = fst (damping_terms e c r r2);
          damping_term2 = snd (damping_terms e c r r2);
          v = - (1 + 1 + 1) * (x i p - xjimage p) * (x i q - xjimage q) * damping_term2 * r5
      in if p = q then v + damping_term1 * r3 else v)"

lemma tensor_step:
  "(if P then upd2 (upd2 m A B v) A B (upd2 m A B v A B + t) else upd2 m A B v) =
     upd2 m A B (if P then v + t else v)"
  by (simp add: upd2_def)

lemma block_rows_disjoint: "i \<noteq> j \<Longrightarrow> p < 3 \<Longrightarrow> p' < 3 \<Longrightarrow> i * 3 + p \<noteq> j * 3 + p'"
  for i j p p' :: nat
  by arith

lemma tensor_pair_apply:
  assumes "i \<noteq> j"
  shows "tensor_pair e c x i j m a b =
     (if i * 3 \<le> a \<and> a < i * 3 + 3 \<and> j * 3 \<le> b \<and> b < j * 3 + 3
      then tensor_entry e c x i j (a - i * 3) (b - j * 3)
      else if j * 3 \<le> a \<and> a < j * 3 + 3 \<and> i * 3 \<le> b \<and> b < i * 3 + 3
      then tensor_entry e c x i j (a - j * 3) (b - i * 3)
      else m a b)"
proof -
  have ne: "i * 3 + p \<noteq> j * 3 + p'" if "p < 3" "p' < 3" for p p'
    using block_rows_disjoint[OF assms that] .
  have blocks: "\<not> (i * 3 \<le> a \<and> a < i * 3 + 3 \<and> j * 3 \<le> a \<and> a < j * 3 + 3)"
    using assms by arith
  show ?thesis
    unfolding tensor_pair_def tensor_entry_def Let_def case_prod_beta tensor_step
    apply (subst fold_block_copy[where k = 3 and rb = "i * 3" and ra = "j * 3", OF ne])
      apply assumption
     apply assumption
    apply (simp only: fold_block_write)
    using assms apply auto
    done
qed


lemma in_block_iff: "(i * 3 \<le> a \<and> a < i * 3 + 3) = (a div 3 = i)" for a i :: nat
  by arith

lemma block_offset: "a div 3 = i \<Longrightarrow> a - i * 3 = a mod 3" for a i :: nat
  by arith

lemma in_block2:
  "(i * 3 \<le> a \<and> a < i * 3 + 3 \<and> j * 3 \<le> b \<and> b < j * 3 + 3) = (a div 3 = i \<and> b div 3 = j)"
  for a b i j :: nat
  by arith

lemma if_merge:
  assumes "P \<Longrightarrow> u = w" "Q \<Longrightarrow> v = w"
  shows "(if P then u else if Q then v else z) = (if P \<or> Q then w else z)"
  using assms by auto

lemma tensor_pair_block:
  assumes "i \<noteq> j"
  shows "tensor_pair e c x i j m a b =
     (if a div 3 = i \<and> b div 3 = j \<or> a div 3 = j \<and> b div 3 = i
      then tensor_entry e c x i j (a mod 3) (b mod 3)
      else m a b)"
  unfolding tensor_pair_apply[OF assms] in_block2
proof (rule if_merge)
  assume "a div 3 = i \<and> b div 3 = j"
  then have "a - i * 3 = a mod 3" "b - j * 3 = b mod 3"
    by (blast intro: block_offset)+
  then show "tensor_entry e c x i j (a - i * 3) (b - j * 3) = tensor_entry e c x i j (a mod 3) (b mod 3)"
    by (simp only:)
next
  assume "a div 3 = j \<and> b div 3 = i"
  then have "a - j * 3 = a mod 3" "b - i * 3 = b mod 3"
    by (blast intro: block_offset)+
  then show "tensor_entry e c x i j (a - j * 3) (b - i * 3) = tensor_entry e c x i j (a mod 3) (b mod 3)"
    by (simp only:)
qed

lemma tensor_row_block:
  assumes "\<And>j. j \<in> set js \<Longrightarrow> j \<noteq> i"
  shows "fold (tensor_pair e c x i) js m a b =
     (if a div 3 = i \<and> b div 3 \<in> set js then tensor_entry e c x i (b div 3) (a mod 3) (b mod 3)
      else if b div 3 = i \<and> a div 3 \<in> set js then tensor_entry e c x i (a div 3) (a mod 3) (b mod 3)
      else m a b)"
  using assms
proof (induction js rule: rev_induct)
  case Nil
  then show ?case by simp
next
  case (snoc j js)
  have ij: "i \<noteq> j" using snoc.prems[of j] by auto
  have IH: "fold (tensor_pair e c x i) js m a b =
     (if a div 3 = i \<and> b div 3 \<in> set js then tensor_entry e c x i (b div 3) (a mod 3) (b mod 3)
      else if b div 3 = i \<and> a div 3 \<in> set js then tensor_entry e c x i (a div 3) (a mod 3) (b mod 3)
      else m a b)"
    using snoc by simp
  have "fold (tensor_pair e c x i) (js @ [j]) m a b =
        tensor_pair e c x i j (fold (tensor_pair e c x i) js m) a b"
    by simp
  also have "\<dots> = (if a div 3 = i \<and> b div 3 = j \<or> a div 3 = j \<and> b div 3 = i
      then tensor_entry e c x i j (a mod 3) (b mod 3)
      else fold (tensor_pair e c x i) js m a b)"
    by (rule tensor_pair_block[OF ij])
  finally show ?case using IH ij by auto
qed

lemma tensor_pairs_block:
  assumes "\<And>i. i \<in> set is \<Longrightarrow> i < N"
  shows "fold (\<lambda>i. fold (\<lambda>j. tensor_pair e c x i j) [i + 1..<N]) is m a b =
     (if a div 3 \<in> set is \<and> a div 3 < b div 3 \<and> b div 3 < N
      then tensor_entry e c x (a div 3) (b div 3) (a mod 3) (b mod 3)
      else if b div 3 \<in> set is \<and> b div 3 < a div 3 \<and> a div 3 < N
      then tensor_entry e c x (b div 3) (a div 3) (a mod 3) (b mod 3)
      else m a b)"
  using assms
proof (induction "is" rule: rev_induct)
  case Nil
  then show ?case by simp
next
  case (snoc i "is")
  define g where "g = (\<lambda>i. fold (\<lambda>j. tensor_pair e c x i j) [i + 1..<N])"
  have IH: "fold g is m a b =
     (if a div 3 \<in> set is \<and> a div 3 < b div 3 \<and> b div 3 < N
      then tensor_entry e c x (a div 3) (b div 3) (a mod 3) (b mod 3)
      else if b div 3 \<in> set is \<and> b div 3 < a div 3 \<and> a div 3 < N
      then tensor_entry e c x (b div 3) (a div 3) (a mod 3) (b mod 3)
      else m a b)"
    using snoc unfolding g_def by simp
  have "fold g (is @ [i]) m a b = fold (tensor_pair e c x i) [i + 1..<N] (fold g is m) a b"
    by (simp add: g_def)
  also have "\<dots> =
     (if a div 3 = i \<and> b div 3 \<in> set [i + 1..<N]
      then tensor_entry e c x i (b div 3) (a mod 3) (b mod 3)
      else if b div 3 = i \<and> a div 3 \<in> set [i + 1..<N]
      then tensor_entry e c x i (a div 3) (a mod 3) (b mod 3)
      else fold g is m a b)"
    by (rule tensor_row_block) simp
  finally have "fold g (is @ [i]) m a b = (if a div 3 = i \<and> b div 3 \<in> set [i + 1..<N]
      then tensor_entry e c x i (b div 3) (a mod 3) (b mod 3)
      else if b div 3 = i \<and> a div 3 \<in> set [i + 1..<N]
      then tensor_entry e c x i (a div 3) (a mod 3) (b mod 3)
      else fold g is m a b)" .
  then show ?case unfolding g_def[symmetric] using IH by auto
qed

lemma tensor_pairs_upper:
  assumes "i < j" "j < N" "p < 3" "q < 3"
  shows "tensor_pairs e c N x m (i * 3 + p) (j * 3 + q) = tensor_entry e c x i j p q"
    and "tensor_pairs e c N x m (j * 3 + q) (i * 3 + p) = tensor_entry e c x i j q p"
proof -
  have dm: "(i * 3 + p) div 3 = i" "(i * 3 + p) mod 3 = p" "(j * 3 + q) div 3 = j" "(j * 3 + q) mod 3 = q"
    using assms by simp_all
  have mem: "i \<in> set [0..<N - 1]" using assms by simp
  have lt: "k \<in> set [0..<N - 1] \<Longrightarrow> k < N" for k by simp
  note blk = tensor_pairs_block[of "[0..<N - 1]" N e c x m, OF lt]
  show "tensor_pairs e c N x m (i * 3 + p) (j * 3 + q) = tensor_entry e c x i j p q"
    unfolding tensor_pairs_def using blk[of "i * 3 + p" "j * 3 + q"] mem assms
    by (simp only: dm) simp
  show "tensor_pairs e c N x m (j * 3 + q) (i * 3 + p) = tensor_entry e c x i j q p"
    unfolding tensor_pairs_def using blk[of "j * 3 + q" "i * 3 + p"] mem assms
    by (simp only: dm) simp
qed

section \<open>Lemmas about the solver\<close>

lemma solver_pass_fixed:
  assumes "fixed_iteration c"
  shows "solver_pass c s =
     (if iterations s \<ge> iterations_max c then (True, sweep_once c s)
      else (False, (save_dipoles (sweep_once c s))\<lparr>iterations := iterations s + 1\<rparr>))"
  using assms by (simp add: solver_pass_def finish_pass_def sweep_once_def Let_def)

lemma solver_loop_fixed:
  assumes "fixed_iteration c" "keep_iterating s"
  shows "sweeps (solver_loop c s) = sweeps s + nat (iterations_max c - iterations s) + 1
       \<and> precision_tests (solver_loop c s) = precision_tests s
       \<and> warned (solver_loop c s) = warned s
       \<and> iterations (solver_loop c s) = max (iterations s) (iterations_max c)"
  using assms
proof (induction c s rule: solver_loop.induct)
  case (1 c s)
  show ?case
  proof (cases "iterations s \<ge> iterations_max c")
    case True
    then have "solver_loop c s = sweep_once c s"
      using 1 by (subst solver_loop.simps) (simp add: solver_pass_fixed)
    then show ?thesis using True by simp
  next
    case False
    define s' where "s' = (save_dipoles (sweep_once c s))\<lparr>iterations := iterations s + 1\<rparr>"
    have pass: "solver_pass c s = (False, s')"
      using False 1 by (simp add: solver_pass_fixed s'_def)
    have loop: "solver_loop c s = solver_loop c s'"
      using 1 pass by (subst solver_loop.simps) simp
    have keep: "keep_iterating s'" using 1 by (simp add: s'_def)
    have IH: "sweeps (solver_loop c s') = sweeps s' + nat (iterations_max c - iterations s') + 1
       \<and> precision_tests (solver_loop c s') = precision_tests s'
       \<and> warned (solver_loop c s') = warned s'
       \<and> iterations (solver_loop c s') = max (iterations s') (iterations_max c)"
      using "1.IH"[OF "1.prems"(2) pass[symmetric] _ "1.prems"(1) keep] by simp
    have "sweeps s' = Suc (sweeps s)" "precision_tests s' = precision_tests s"
         "warned s' = warned s" "iterations s' = iterations s + 1"
      by (simp_all add: s'_def)
    then show ?thesis using IH loop False by auto
  qed
qed



text \<open>loops that write one array entry per step\<close>

lemma write_loop:
  assumes "I s"
    and "\<And>p t. I t \<Longrightarrow> p < m \<Longrightarrow> I (step p t) \<and> get (step p t) = upd2 (get t) i p (val p)"
  shows "I (fold step [0..<m] s) \<and>
         (\<forall>i' p. get (fold step [0..<m] s) i' p = (if i' = i \<and> p < m then val p else get s i' p))"
proof -
  have "k \<le> m \<Longrightarrow> I (fold step [0..<k] s) \<and>
         (\<forall>i' p. get (fold step [0..<k] s) i' p = (if i' = i \<and> p < k then val p else get s i' p))" for k
  proof (induction k)
    case 0
    then show ?case using assms(1) by simp
  next
    case (Suc k)
    then have IH: "I (fold step [0..<k] s)"
      "\<And>i' p. get (fold step [0..<k] s) i' p = (if i' = i \<and> p < k then val p else get s i' p)"
      by simp_all
    have st: "I (step k (fold step [0..<k] s))"
      "get (step k (fold step [0..<k] s)) = upd2 (get (fold step [0..<k] s)) i k (val k)"
      using assms(2)[OF IH(1), of k] Suc.prems by simp_all
    have "fold step [0..<Suc k] s = step k (fold step [0..<k] s)" by simp
    then show ?case using st IH(2) by (auto simp: upd2_apply)
  qed
  then show ?thesis by blast
qed

lemma double_write_loop:
  assumes "I s"
    and "\<And>i p t. I t \<Longrightarrow> i < n \<Longrightarrow> p < m \<Longrightarrow>
           I (step i p t) \<and> get (step i p t) = upd2 (get t) i p (val i p)"
  shows "I (fold (\<lambda>i. fold (step i) [0..<m]) [0..<n] s) \<and>
         (\<forall>i p. get (fold (\<lambda>i. fold (step i) [0..<m]) [0..<n] s) i p =
                 (if i < n \<and> p < m then val i p else get s i p))"
proof -
  define row where "row = (\<lambda>i. fold (step i) [0..<m])"
  have row: "I (row i t) \<and> (\<forall>i' p. get (row i t) i' p = (if i' = i \<and> p < m then val i p else get t i' p))"
    if "I t" "i < n" for i t
    unfolding row_def using that assms(2) by (intro write_loop) auto
  have "k \<le> n \<Longrightarrow> I (fold row [0..<k] s) \<and>
         (\<forall>i p. get (fold row [0..<k] s) i p = (if i < k \<and> p < m then val i p else get s i p))" for k
  proof (induction k)
    case 0
    then show ?case using assms(1) by simp
  next
    case (Suc k)
    then have IH: "I (fold row [0..<k] s)"
      "\<And>i p. get (fold row [0..<k] s) i p = (if i < k \<and> p < m then val i p else get s i p)"
      by simp_all
    have "fold row [0..<Suc k] s = row k (fold row [0..<k] s)" by simp
    then show ?case using row[OF IH(1), of k] Suc.prems IH(2) by (auto simp: less_Suc_eq)
  qed
  from this[of n] show ?thesis by (simp add: row_def)
qed

lemma reset_dipoles_mu:
  "mu_induced (reset_dipoles s) i p =
     (if i < nlocal s \<and> p < 3 then static_polarizability s i * ef_static s i p else mu_induced s i p)"
proof -
  have "(static_polarizability (reset_dipoles s) = static_polarizability s \<and> ef_static (reset_dipoles s) = ef_static s) \<and>
     (\<forall>i p. mu_induced (reset_dipoles s) i p =
        (if i < nlocal s \<and> p < 3 then static_polarizability s i * ef_static s i p else mu_induced s i p))"
    unfolding reset_dipoles_def
    by (rule double_write_loop[where I = "\<lambda>t. static_polarizability t = static_polarizability s \<and> ef_static t = ef_static s"])
       simp_all
  then show ?thesis by simp
qed

lemma save_dipoles_mu:
  "mu_induced (save_dipoles s) i p =
     (if i < nlocal s \<and> p < 3 then mu_induced_new s i p else mu_induced s i p)"
proof -
  have "(mu_induced_new (save_dipoles s) = mu_induced_new s) \<and>
     (\<forall>i p. mu_induced (save_dipoles s) i p =
        (if i < nlocal s \<and> p < 3 then mu_induced_new s i p else mu_induced s i p))"
    unfolding save_dipoles_def
    by (rule double_write_loop[where I = "\<lambda>t. mu_induced_new t = mu_induced_new s"]) simp_all
  then show ?thesis by simp
qed


lemma save_old_dipoles_ef:
  "ef_induced (save_old_dipoles s) i p =
     (if i < nlocal s \<and> p < 3 then 0 else ef_induced s i p)"
proof -
  have "True \<and>
     (\<forall>i p. ef_induced (save_old_dipoles s) i p =
        (if i < nlocal s \<and> p < 3 then 0 else ef_induced s i p))"
    unfolding save_old_dipoles_def
    by (rule double_write_loop[where I = "\<lambda>t. True"]) simp_all
  then show ?thesis by simp
qed


definition next_pass :: "'a::{zero,one,plus,minus,times,inverse,ord} settings \<Rightarrow> 'a state \<Rightarrow> 'a state" where
  "next_pass c s =
     (save_dipoles (precision_test c (sweep_once c s)))\<lparr>iterations := iterations s + 1\<rparr>"


lemma next_pass_frame [simp]:
  "nlocal (next_pass c s) = nlocal s"
  "iterations (next_pass c s) = iterations s + 1"
  "warned (next_pass c s) = warned s"
  "sweeps (next_pass c s) = Suc (sweeps s)"
  "precision_tests (next_pass c s) = Suc (precision_tests s)"
  "static_polarizability (next_pass c s) = static_polarizability s"
  "ef_static (next_pass c s) = ef_static s"
  "dipole_field_matrix (next_pass c s) = dipole_field_matrix s"
  "ranked_array (next_pass c s) = ranked_array s"
  by (simp_all add: next_pass_def)




lemma build_dipole_field_matrix_frame [simp]:
  "nlocal (build_dipole_field_matrix e c s) = nlocal s"
  "iterations (build_dipole_field_matrix e c s) = iterations s"
  "static_polarizability (build_dipole_field_matrix e c s) = static_polarizability s"
  "ef_static (build_dipole_field_matrix e c s) = ef_static s"
  "ranked_array (build_dipole_field_matrix e c s) = ranked_array s"
  "rank_metric (build_dipole_field_matrix e c s) = rank_metric s"
  "keep_iterating (build_dipole_field_matrix e c s) = keep_iterating s"
  "warned (build_dipole_field_matrix e c s) = warned s"
  "sweeps (build_dipole_field_matrix e c s) = sweeps s"
  "precision_tests (build_dipole_field_matrix e c s) = precision_tests s"
  "mu_induced (build_dipole_field_matrix e c s) = mu_induced s"
  "mu_induced_new (build_dipole_field_matrix e c s) = mu_induced_new s"
  "mu_induced_old (build_dipole_field_matrix e c s) = mu_induced_old s"
  "ef_induced (build_dipole_field_matrix e c s) = ef_induced s"
  by (simp_all add: build_dipole_field_matrix_def Let_def)

lemma rank_dipoles_frame [simp]:
  "nlocal (rank_dipoles c s) = nlocal s"
  "iterations (rank_dipoles c s) = iterations s"
  "static_polarizability (rank_dipoles c s) = static_polarizability s"
  "ef_static (rank_dipoles c s) = ef_static s"
  "dipole_field_matrix (rank_dipoles c s) = dipole_field_matrix s"
  "keep_iterating (rank_dipoles c s) = keep_iterating s"
  "warned (rank_dipoles c s) = warned s"
  "sweeps (rank_dipoles c s) = sweeps s"
  "precision_tests (rank_dipoles c s) = precision_tests s"
  "mu_induced (rank_dipoles c s) = mu_induced s"
  "mu_induced_new (rank_dipoles c s) = mu_induced_new s"
  "mu_induced_old (rank_dipoles c s) = mu_induced_old s"
  "ef_induced (rank_dipoles c s) = ef_induced s"
  by (simp_all add: rank_dipoles_def Let_def)

text \<open>The state in which the loop is entered.\<close>

definition solver_entry ::
  "'a::{zero,one,plus,uminus,minus,times,inverse,ord} env \<Rightarrow> 'a settings \<Rightarrow> 'a state \<Rightarrow> 'a state" where
  "solver_entry e c s =
     rank_dipoles c ((build_dipole_field_matrix e c s)\<lparr>keep_iterating := True, iterations := 0\<rparr>)"

lemma DipoleSolverIterative_loop:
  "DipoleSolverIterative e c s =
     (iterations (solver_loop c (solver_entry e c s)), solver_loop c (solver_entry e c s))"
  by (simp add: DipoleSolverIterative_def solver_entry_def Let_def)

lemma solver_entry_frame [simp]:
  "nlocal (solver_entry e c s) = nlocal s"
  "iterations (solver_entry e c s) = 0"
  "keep_iterating (solver_entry e c s)"
  "static_polarizability (solver_entry e c s) = static_polarizability s"
  "ef_static (solver_entry e c s) = ef_static s"
  "warned (solver_entry e c s) = warned s"
  "sweeps (solver_entry e c s) = sweeps s"
  "precision_tests (solver_entry e c s) = precision_tests s"
  "mu_induced (solver_entry e c s) = mu_induced s"
  by (simp_all add: solver_entry_def)


section \<open>Lemmas about one sweep\<close>

text \<open>accumulating loops\<close>

lemma accum_loop:
  assumes "I s"
    and "\<And>q t. I t \<Longrightarrow> q < m \<Longrightarrow>
           I (step q t) \<and> get (step q t) = upd2 (get t) i p (h q (get t i p))"
  shows "I (fold step [0..<m] s) \<and>
         (\<forall>i' p'. get (fold step [0..<m] s) i' p' =
                   (if i' = i \<and> p' = p then fold h [0..<m] (get s i p) else get s i' p'))"
proof -
  have "k \<le> m \<Longrightarrow> I (fold step [0..<k] s) \<and>
         (\<forall>i' p'. get (fold step [0..<k] s) i' p' =
                   (if i' = i \<and> p' = p then fold h [0..<k] (get s i p) else get s i' p'))" for k
  proof (induction k)
    case 0
    then show ?case using assms(1) by simp
  next
    case (Suc k)
    then have IH: "I (fold step [0..<k] s)"
      "\<And>i' p'. get (fold step [0..<k] s) i' p' =
                   (if i' = i \<and> p' = p then fold h [0..<k] (get s i p) else get s i' p')"
      by simp_all
    have st: "I (step k (fold step [0..<k] s))"
      "get (step k (fold step [0..<k] s)) =
         upd2 (get (fold step [0..<k] s)) i p (h k (get (fold step [0..<k] s) i p))"
      using assms(2)[OF IH(1), of k] Suc.prems by simp_all
    have "fold step [0..<Suc k] s = step k (fold step [0..<k] s)" by simp
    then show ?case using st IH(2) by (auto simp: upd2_apply)
  qed
  then show ?thesis by blast
qed

lemma row_loop:
  assumes "I s"
    and "\<And>p t. I t \<Longrightarrow> p < m \<Longrightarrow> I (step p t) \<and>
           (\<forall>i' p'. get (step p t) i' p' = (if i' = i \<and> p' = p then val p (get t i p) else get t i' p'))"
  shows "I (fold step [0..<m] s) \<and>
         (\<forall>i' p'. get (fold step [0..<m] s) i' p' =
                   (if i' = i \<and> p' < m then val p' (get s i p') else get s i' p'))"
proof -
  have "k \<le> m \<Longrightarrow> I (fold step [0..<k] s) \<and>
         (\<forall>i' p'. get (fold step [0..<k] s) i' p' =
                   (if i' = i \<and> p' < k then val p' (get s i p') else get s i' p'))" for k
  proof (induction k)
    case 0
    then show ?case using assms(1) by simp
  next
    case (Suc k)
    then have IH: "I (fold step [0..<k] s)"
      "\<And>i' p'. get (fold step [0..<k] s) i' p' =
                   (if i' = i \<and> p' < k then val p' (get s i p') else get s i' p')"
      by simp_all
    have st: "I (step k (fold step [0..<k] s))"
      "\<And>i' p'. get (step k (fold step [0..<k] s)) i' p' =
         (if i' = i \<and> p' = k then val k (get (fold step [0..<k] s) i k)
          else get (fold step [0..<k] s) i' p')"
      using assms(2)[OF IH(1), of k] Suc.prems by simp_all
    have "fold step [0..<Suc k] s = step k (fold step [0..<k] s)" by simp
    then show ?case using st IH(2) by (auto simp: less_Suc_eq)
  qed
  then show ?thesis by blast
qed

text \<open>The induced field of particle \<open>k\<close>, component \<open>p\<close>, as the contraction leaves it.\<close>

definition contraction ::
  "'a::{minus,times} array2 \<Rightarrow> 'a array2 \<Rightarrow> nat \<Rightarrow> nat \<Rightarrow> nat \<Rightarrow> 'a \<Rightarrow> 'a" where
  "contraction M mu n k p acc =
     fold (\<lambda>j acc. if k \<noteq> j
                    then fold (\<lambda>q acc. acc - M (k * 3 + p) (j * 3 + q) * mu j q) [0..<3] acc
                    else acc) [0..<n] acc"

lemma contract_index_ef:
  "ef_induced (contract_index k s) i p =
     (if i = k \<and> p < 3
      then contraction (dipole_field_matrix s) (mu_induced s) (nlocal s) k p (ef_induced s k p)
      else ef_induced s i p)"
proof -
  define M where "M = dipole_field_matrix s"
  define mu where "mu = mu_induced s"
  define I where "I = (\<lambda>t :: 'a state. dipole_field_matrix t = M \<and> mu_induced t = mu)"
  define inner where "inner = (\<lambda>j p q (t :: 'a state).
     t\<lparr>ef_induced := upd2 (ef_induced t) k p
          (ef_induced t k p - dipole_field_matrix t (k * 3 + p) (j * 3 + q) * mu_induced t j q)\<rparr>)"
  define g where "g = (\<lambda>j p acc. fold (\<lambda>q acc. acc - M (k * 3 + p) (j * 3 + q) * mu j q) [0..<3] acc)"
  have inner: "I (fold (inner j p) [0..<3] t) \<and>
      (\<forall>i' p'. ef_induced (fold (inner j p) [0..<3] t) i' p' =
         (if i' = k \<and> p' = p then g j p (ef_induced t k p) else ef_induced t i' p'))"
    if "I t" for j p t
    unfolding g_def
    by (rule accum_loop[where I = I and get = ef_induced]) (use that in \<open>auto simp: I_def inner_def\<close>)
  have block: "I (fold (\<lambda>p. fold (inner j p) [0..<3]) [0..<3] t) \<and>
      (\<forall>i' p'. ef_induced (fold (\<lambda>p. fold (inner j p) [0..<3]) [0..<3] t) i' p' =
         (if i' = k \<and> p' < 3 then g j p' (ef_induced t k p') else ef_induced t i' p'))"
    if "I t" for j t
    by (rule row_loop[where I = I and get = ef_induced]) (use that inner in auto)
  define step where "step = (\<lambda>j (t :: 'a state).
     if k \<noteq> j then fold (\<lambda>p. fold (inner j p) [0..<3]) [0..<3] t else t)"
  have step: "I (step j t) \<and>
      (\<forall>i' p'. ef_induced (step j t) i' p' =
         (if i' = k \<and> p' < 3 then (if k \<noteq> j then g j p' (ef_induced t k p') else ef_induced t k p')
          else ef_induced t i' p'))"
    if "I t" for j t
    using block[OF that, of j] that by (auto simp: step_def)
  have loop: "I (fold step [0..<n] s) \<and>
      (\<forall>i' p'. ef_induced (fold step [0..<n] s) i' p' =
         (if i' = k \<and> p' < 3 then contraction M mu n k p' (ef_induced s k p')
          else ef_induced s i' p'))" for n
  proof (induction n)
    case 0
    then show ?case by (simp add: I_def M_def mu_def contraction_def)
  next
    case (Suc n)
    have "fold step [0..<Suc n] s = step n (fold step [0..<n] s)" by simp
    moreover have "contraction M mu (Suc n) k p' acc =
        (if k \<noteq> n then g n p' (contraction M mu n k p' acc) else contraction M mu n k p' acc)"
      for p' acc
      by (cases "k = n") (simp_all add: contraction_def g_def)
    ultimately show ?case using step[of "fold step [0..<n] s" n] Suc by auto
  qed
  have "contract_index k s = fold step [0..<nlocal s] s"
    unfolding contract_index_def step_def inner_def Let_def ..
  then show ?thesis using loop[of "nlocal s"] by (simp add: M_def mu_def)
qed


lemma upd2_same: "upd2 a i p v i p = v"
  by (simp add: upd2_def)

lemma update_dipole_new:
  "mu_induced_new (update_dipole c k s) i p =
     (if i = k \<and> p < 3
      then static_polarizability s k * (ef_static s k p + ef_induced s k p)
      else mu_induced_new s i p)"
proof -
  define I where "I = (\<lambda>t :: 'a state. static_polarizability t = static_polarizability s \<and>
     ef_static t = ef_static s \<and> ef_induced t = ef_induced s)"
  have "I (update_dipole c k s) \<and>
     (\<forall>i' p'. mu_induced_new (update_dipole c k s) i' p' =
        (if i' = k \<and> p' < 3 then static_polarizability s k * (ef_static s k p' + ef_induced s k p')
         else mu_induced_new s i' p'))"
    unfolding update_dipole_def
    by (rule write_loop[where I = I]) (auto simp: I_def Let_def)
  then show ?thesis by simp
qed

lemma update_dipole_mu:
  "mu_induced (update_dipole c k s) i p =
     (if (polar_gs c \<or> polar_gs_ranked c) \<and> i = k \<and> p < 3
      then static_polarizability s k * (ef_static s k p + ef_induced s k p)
      else mu_induced s i p)"
proof (cases "polar_gs c \<or> polar_gs_ranked c")
  case True
  define I where "I = (\<lambda>t :: 'a state. static_polarizability t = static_polarizability s \<and>
     ef_static t = ef_static s \<and> ef_induced t = ef_induced s)"
  have "I (update_dipole c k s) \<and>
     (\<forall>i' p'. mu_induced (update_dipole c k s) i' p' =
        (if i' = k \<and> p' < 3 then static_polarizability s k * (ef_static s k p' + ef_induced s k p')
         else mu_induced s i' p'))"
    unfolding update_dipole_def
    by (rule write_loop[where I = I]) (use True in \<open>auto simp: I_def Let_def upd2_same\<close>)
  then show ?thesis using True by simp
next
  case False
  then have "mu_induced (update_dipole c k s) = mu_induced s"
    by (simp add: update_dipole_def fold_frame_simps Let_def)
  then show ?thesis using False by simp
qed

text \<open>The update of one particle: contraction, then the new dipole.\<close>

definition dipole_step :: "'a::{plus,minus,times} settings \<Rightarrow> nat \<Rightarrow> 'a state \<Rightarrow> 'a state" where
  "dipole_step c k s = update_dipole c k (contract_index k s)"

definition new_dipole :: "'a::{plus,minus,times} state \<Rightarrow> nat \<Rightarrow> nat \<Rightarrow> 'a" where
  "new_dipole s k p =
     static_polarizability s k
       * (ef_static s k p
          + contraction (dipole_field_matrix s) (mu_induced s) (nlocal s) k p (ef_induced s k p))"

lemma dipole_step_values:
  "mu_induced_new (dipole_step c k s) i p =
     (if i = k \<and> p < 3 then new_dipole s k p else mu_induced_new s i p)"
  "mu_induced (dipole_step c k s) i p =
     (if (polar_gs c \<or> polar_gs_ranked c) \<and> i = k \<and> p < 3 then new_dipole s k p
      else mu_induced s i p)"
  "ef_induced (dipole_step c k s) i p =
     (if i = k \<and> p < 3
      then contraction (dipole_field_matrix s) (mu_induced s) (nlocal s) k p (ef_induced s k p)
      else ef_induced s i p)"
  by (auto simp: dipole_step_def new_dipole_def update_dipole_new update_dipole_mu contract_index_ef)

lemma dipole_step_frame [simp]:
  "nlocal (dipole_step c k s) = nlocal s"
  "static_polarizability (dipole_step c k s) = static_polarizability s"
  "ef_static (dipole_step c k s) = ef_static s"
  "dipole_field_matrix (dipole_step c k s) = dipole_field_matrix s"
  "ranked_array (dipole_step c k s) = ranked_array s"
  "mu_induced_old (dipole_step c k s) = mu_induced_old s"
  by (simp_all add: dipole_step_def)

lemma contract_dipoles_steps:
  "contract_dipoles c s = fold (\<lambda>i s. dipole_step c (ranked_array s ! i) s) [0..<nlocal s] s"
  by (simp add: contract_dipoles_def dipole_step_def Let_def)

lemma contract_dipoles_ranked:
  "contract_dipoles c s = fold (\<lambda>i. dipole_step c (ranked_array s ! i)) [0..<nlocal s] s"
proof -
  have "fold (\<lambda>i t. dipole_step c (ranked_array t ! i) t) xs t =
        fold (\<lambda>i. dipole_step c (ranked_array s ! i)) xs t"
    if "ranked_array t = ranked_array s" for xs t
    using that by (induction xs arbitrary: t) simp_all
  then show ?thesis by (simp add: contract_dipoles_steps)
qed

section \<open>Example configurations\<close>

text \<open>
  Exact arithmetic with the library functions of the reals and no periodic images; the
  settings are the defaults of the constructor, with a Coulomb cutoff of 10.
\<close>

definition real_env :: "real env" where
  "real_env = \<lparr>libm_sqrt = sqrt, libm_exp = exp, DBL_MAX = 2 ^ 1024 - 2 ^ 971,
               closest_image = (\<lambda>xi xj. xj)\<rparr>"

definition default_settings :: "real settings" where
  "default_settings = \<lparr>iterations_max = 50, damping_type = DAMPING_NONE, polar_damp = 2.1304,
     zodid = False, polar_precision = 0.00000000001, fixed_iteration = False,
     polar_gs = False, polar_gs_ranked = True, polar_gamma = 1.03, use_previous = False,
     cut_coul = 10, cut_coulsq = 100, qqrd2e = 1, eflag = True\<rparr>"

definition fixed_zero :: "real settings" where
  "fixed_zero = default_settings\<lparr>fixed_iteration := True, iterations_max := 0\<rparr>"

definition fixed_three :: "real settings" where
  "fixed_three = default_settings\<lparr>fixed_iteration := True, iterations_max := 3\<rparr>"


text \<open>
  Two particles of polarizability 1 at distance 1 on the first axis; the static field is
  \<open>(1, 0, 0)\<close> at the first and zero at the second, and the dipoles are \<open>alpha * E\<close>.
\<close>

definition two_particles :: "real state" where
  "two_particles = \<lparr>nlocal = 2,
     atom_x = (\<lambda>i p. if i = 1 \<and> p = 0 then 1 else 0),
     atom_q = (\<lambda>i. 0),
     atom_f = (\<lambda>i p. 0), molecule = (\<lambda>i. 0), static_polarizability = (\<lambda>i. 1),
     ef_static = (\<lambda>i p. if i = 0 \<and> p = 0 then 1 else 0),
     mu_induced = (\<lambda>i p. if i = 0 \<and> p = 0 then 1 else 0),
     ef_induced = (\<lambda>i p. 0),
     mu_induced_new = (\<lambda>i p. 0), mu_induced_old = (\<lambda>i p. 0),
     dipole_field_matrix = (\<lambda>i p. 0), ranked_array = [], rank_metric = (\<lambda>i. 0),
     iterations = 0, keep_iterating = False, warned = False, sweeps = 0, precision_tests = 0,
     u_polar_self = 0, u_polar_ef = 0, u_polar_dd = 0, eng_pol = 0\<rparr>"

lemma two_particles_fields:
  "nlocal two_particles = 2"
  "static_polarizability two_particles = (\<lambda>i. 1)"
  "ef_static two_particles = (\<lambda>i p. if i = 0 \<and> p = 0 then 1 else 0)"
  "mu_induced two_particles = (\<lambda>i p. if i = 0 \<and> p = 0 then 1 else 0)"
  "sweeps two_particles = 0" "precision_tests two_particles = 0" "\<not> warned two_particles"
  by (simp_all add: two_particles_def)

lemma fixed_zero_fields:
  "fixed_iteration fixed_zero" "iterations_max fixed_zero = 0" "polar_gs_ranked fixed_zero"
  by (simp_all add: fixed_zero_def default_settings_def)

lemma fixed_three_fields:
  "fixed_iteration fixed_three" "iterations_max fixed_three = 3"
  by (simp_all add: fixed_three_def default_settings_def)


lemma upt_small:
  "[0..<2] = [0, 1]" "[1..<2] = [1]" "[2..<2] = []" "[0..<3] = [0, 1, 2]"
  "[Suc 0..<2] = [1]" "[Suc (Suc 0)..<2] = []" "[0..<1] = [0]" "[1..<1] = []" "[Suc 0..<1] = []"
  by (simp_all add: upt_rec)

section \<open>The claims\<close>

subsection \<open>Fixed-iteration mode\<close>

text \<open>
  C2 (as the code has it).  In fixed-iteration mode with \<open>iterations_max \<ge> 0\<close> the loop
  body, and with it the sweep over all dipoles, runs \<open>iterations_max + 1\<close> times: the test
  \<^verbatim>\<open>iterations >= iterations_max\<close> stands after the sweep and before the counter is
  advanced.  The precision test is never evaluated, no warning is issued, and the value
  returned is \<open>iterations_max\<close>.
\<close>

theorem fixed_iteration_sweeps:
  assumes "fixed_iteration c" "0 \<le> iterations_max c"
  shows "sweeps (snd (DipoleSolverIterative e c s)) = sweeps s + nat (iterations_max c) + 1
       \<and> precision_tests (snd (DipoleSolverIterative e c s)) = precision_tests s
       \<and> fst (DipoleSolverIterative e c s) = iterations_max c
       \<and> warned (snd (DipoleSolverIterative e c s)) = warned s"
  using solver_loop_fixed[OF assms(1), of "solver_entry e c s"] assms(2)
  by (simp add: DipoleSolverIterative_loop)

theorem fixed_iteration_sweeps_witness:
  "sweeps (snd (DipoleSolverIterative real_env fixed_three two_particles)) = 4
   \<and> precision_tests (snd (DipoleSolverIterative real_env fixed_three two_particles)) = 0
   \<and> fst (DipoleSolverIterative real_env fixed_three two_particles) = 3
   \<and> \<not> warned (snd (DipoleSolverIterative real_env fixed_three two_particles))"
  using fixed_iteration_sweeps[of fixed_three real_env two_particles]
  by (simp add: fixed_three_fields two_particles_fields)

text \<open>
  C2 as stated fails: with \<open>iterations_max = 0\<close> one sweep is performed, not none.
\<close>

theorem fixed_iteration_sweeps_counterexample:
  "fixed_iteration fixed_zero \<and> 0 \<le> iterations_max fixed_zero
   \<and> sweeps (snd (DipoleSolverIterative real_env fixed_zero two_particles))
      \<noteq> sweeps two_particles + nat (iterations_max fixed_zero)"
  using solver_loop_fixed[of fixed_zero "solver_entry real_env fixed_zero two_particles"]
  by (simp add: DipoleSolverIterative_loop fixed_zero_fields two_particles_fields)

text \<open>
  C9.  In fixed-iteration mode the function returns at the test
  \<^verbatim>\<open>iterations >= iterations_max\<close>, or goes on with a counter that is still at most
  \<open>iterations_max\<close>: the divergence branch, which resets the dipoles and issues the warning,
  is never entered.  So a warning that was not there before the call is not there after it.
\<close>

theorem fixed_iteration_never_warns:
  assumes "fixed_iteration c" "\<not> warned s"
  shows "\<not> warned (snd (DipoleSolverIterative e c s))"
  using solver_loop_fixed[OF assms(1), of "solver_entry e c s"] assms(2)
  by (simp add: DipoleSolverIterative_loop)

theorem fixed_iteration_never_warns_witness:
  "fixed_iteration fixed_three \<and> \<not> warned two_particles
   \<and> \<not> warned (snd (DipoleSolverIterative real_env fixed_three two_particles))"
  using fixed_iteration_never_warns[of fixed_three two_particles real_env]
  by (simp add: fixed_three_fields two_particles_fields)

subsection \<open>Precision mode\<close>



subsection \<open>The first guess and the solver with no iterations allowed\<close>

definition compute_dipoles ::
  "'a::{zero,one,plus,uminus,minus,times,inverse,ord} env \<Rightarrow> 'a settings \<Rightarrow> 'a state \<Rightarrow>
     int \<times> 'a state" where
  "compute_dipoles e c s = solve_dipoles e c (initial_guess e c s)"

lemma fold_upt_inv:
  assumes "P 0 s" and "\<And>k t. k < n \<Longrightarrow> P k t \<Longrightarrow> P (Suc k) (f k t)"
  shows "P n (fold f [0..<n] s)"
proof -
  have "k \<le> n \<Longrightarrow> P k (fold f [0..<k] s)" for k
  proof (induction k)
    case 0
    then show ?case using assms(1) by simp
  next
    case (Suc k)
    then have "P k (fold f [0..<k] s)" by simp
    then have "P (Suc k) (f k (fold f [0..<k] s))" using assms(2) Suc.prems by simp
    then show ?case by simp
  qed
  then show ?thesis by simp
qed

lemma less_3_cases: "p < 3 \<longleftrightarrow> p = 0 \<or> p = 1 \<or> p = 2" for p :: nat
  by arith

lemma initial_guess_values:
  "ef_static (initial_guess e c s) i p =
     (if i < nlocal s \<and> p < 3 then ef_static s i p * libm_sqrt e (qqrd2e c) else ef_static s i p)"
  "mu_induced (initial_guess e c s) i p =
     (if i < nlocal s \<and> p < 3 \<and> \<not> use_previous c
      then static_polarizability s i * (ef_static s i p * libm_sqrt e (qqrd2e c)) * polar_gamma c
      else mu_induced s i p)"
  "static_polarizability (initial_guess e c s) = static_polarizability s"
  "nlocal (initial_guess e c s) = nlocal s"
  "warned (initial_guess e c s) = warned s"
  "sweeps (initial_guess e c s) = sweeps s"
proof -
  define K where "K = libm_sqrt e (qqrd2e c)"
  define P where "P = (\<lambda>k (t :: 'a state).
     static_polarizability t = static_polarizability s \<and> nlocal t = nlocal s \<and>
     warned t = warned s \<and> sweeps t = sweeps s \<and>
     (\<forall>i p. ef_static t i p = (if i < k \<and> p < 3 then ef_static s i p * K else ef_static s i p)) \<and>
     (\<forall>i p. mu_induced t i p =
        (if i < k \<and> p < 3 \<and> \<not> use_previous c
         then static_polarizability s i * (ef_static s i p * K) * polar_gamma c
         else mu_induced s i p)))"
  define body where "body = (\<lambda>i (s :: 'a state).
           let ef = ef_static s;
               ef = upd2 ef i 0 (ef i 0 * K);
               ef = upd2 ef i 1 (ef i 1 * K);
               ef = upd2 ef i 2 (ef i 2 * K);
               s = s\<lparr>ef_static := ef\<rparr>
           in if \<not> use_previous c
              then let mu = mu_induced s;
                       mu = upd2 mu i 0 (static_polarizability s i * ef_static s i 0);
                       mu = upd2 mu i 1 (static_polarizability s i * ef_static s i 1);
                       mu = upd2 mu i 2 (static_polarizability s i * ef_static s i 2);
                       mu = upd2 mu i 0 (mu i 0 * polar_gamma c);
                       mu = upd2 mu i 1 (mu i 1 * polar_gamma c);
                       mu = upd2 mu i 2 (mu i 2 * polar_gamma c)
                   in s\<lparr>mu_induced := mu\<rparr>
              else s)"
  have step: "P (Suc k) (body k t)" if "P k t" for k t
    using that unfolding P_def body_def Let_def
    by (auto simp: upd2_apply less_Suc_eq less_3_cases)
  have "P 0 s" by (simp add: P_def)
  then have "P (nlocal s) (fold body [0..<nlocal s] s)"
    by (rule fold_upt_inv) (rule step)
  moreover have "initial_guess e c s = fold body [0..<nlocal s] s"
    unfolding initial_guess_def body_def K_def Let_def ..
  ultimately have "P (nlocal s) (initial_guess e c s)" by simp
  then show
    "ef_static (initial_guess e c s) i p =
     (if i < nlocal s \<and> p < 3 then ef_static s i p * libm_sqrt e (qqrd2e c) else ef_static s i p)"
    "mu_induced (initial_guess e c s) i p =
     (if i < nlocal s \<and> p < 3 \<and> \<not> use_previous c
      then static_polarizability s i * (ef_static s i p * libm_sqrt e (qqrd2e c)) * polar_gamma c
      else mu_induced s i p)"
    "static_polarizability (initial_guess e c s) = static_polarizability s"
    "nlocal (initial_guess e c s) = nlocal s"
    "warned (initial_guess e c s) = warned s"
    "sweeps (initial_guess e c s) = sweeps s"
    by (simp_all add: P_def K_def)
qed

lemma dipole_step_jacobi:
  assumes "\<not> polar_gs c" "\<not> polar_gs_ranked c"
  shows "mu_induced (dipole_step c k s) = mu_induced s"
  using assms by (intro ext) (simp add: dipole_step_values)

lemma contract_dipoles_jacobi:
  assumes "\<not> polar_gs c" "\<not> polar_gs_ranked c"
  shows "mu_induced (contract_dipoles c s) = mu_induced s"
  unfolding contract_dipoles_ranked
  by (rule fold_frame) (rule dipole_step_jacobi[OF assms])

lemma solver_loop_fixed_last:
  assumes "fixed_iteration c" "keep_iterating s" "iterations_max c \<le> iterations s"
  shows "solver_loop c s = sweep_once c s"
  using assms by (subst solver_loop.simps) (simp add: solver_pass_fixed)

lemma DipoleSolverIterative_fixed_zero:
  assumes "fixed_iteration c" "iterations_max c = 0"
  shows "DipoleSolverIterative e c s = (0, sweep_once c (solver_entry e c s))"
  using assms by (simp add: DipoleSolverIterative_loop solver_loop_fixed_last)


lemma two_entry_ranked: "ranked_array (solver_entry real_env fixed_zero two_particles) = [0, 1]"
  by (simp add: solver_entry_def rank_dipoles_def Let_def two_particles_def fixed_zero_def default_settings_def
      bubble_pass_def upt_small eval_nat_numeral)


lemma two_entry_matrix_row: "q < 3 \<Longrightarrow>
  dipole_field_matrix (solver_entry real_env fixed_zero two_particles) 3 q = (if q = 0 then - 2 else 0)"
proof -
  assume q: "q < 3"
  have "tensor_pairs real_env fixed_zero 2 (atom_x two_particles) m (1 * 3 + 0) (0 * 3 + q)
       = tensor_entry real_env fixed_zero (atom_x two_particles) 0 1 0 q" for m
    by (rule tensor_pairs_upper(2)) (use q in simp_all)
  then show ?thesis
    by (simp add: solver_entry_def build_dipole_field_matrix_def Let_def tensor_entry_def
       inverse_powers_def damping_terms_def real_env_def fixed_zero_def default_settings_def two_particles_def)
qed


lemma gs_example:
  "mu_induced (snd (DipoleSolverIterative real_env fixed_zero two_particles)) 1 0 = 2"
proof -
  define E where "E = solver_entry real_env fixed_zero two_particles"
  define S where "S = save_old_dipoles E"
  have loop: "solver_loop fixed_zero E = sweep_once fixed_zero E"
    by (rule solver_loop_fixed_last) (simp_all add: E_def fixed_zero_fields)
  have S: "nlocal S = 2" "ranked_array S = [0, 1]" "static_polarizability S = (\<lambda>i. 1)"
    "ef_static S = (\<lambda>i p. if i = 0 \<and> p = 0 then 1 else 0)"
    "mu_induced S = (\<lambda>i p. if i = 0 \<and> p = 0 then 1 else 0)"
    "\<And>q. q < 3 \<Longrightarrow> dipole_field_matrix S 3 q = (if q = 0 then - 2 else 0)"
    "\<And>i p. i < 2 \<Longrightarrow> p < 3 \<Longrightarrow> ef_induced S i p = 0"
    by (simp_all add: S_def E_def two_entry_ranked two_entry_matrix_row save_old_dipoles_ef
          two_particles_fields)
  have sweep: "contract_dipoles fixed_zero S = dipole_step fixed_zero 1 (dipole_step fixed_zero 0 S)"
    by (simp add: contract_dipoles_ranked S upt_small)
  have first: "mu_induced (dipole_step fixed_zero 0 S) 0 q = (if q = 0 then 1 else 0)" if "q < 3" for q
    using that by (simp add: dipole_step_values fixed_zero_fields new_dipole_def contraction_def S upt_small)
  have "mu_induced (dipole_step fixed_zero 1 (dipole_step fixed_zero 0 S)) 1 0 = 2"
    by (simp add: dipole_step_values fixed_zero_fields new_dipole_def contraction_def S upt_small)
  then show ?thesis
    by (simp add: DipoleSolverIterative_loop loop sweep_once_def sweep
        E_def[symmetric] S_def[symmetric])
qed


text \<open>
  C1 (as the code has it).  With fixed-iteration mode and \<open>iterations_max = 0\<close> the solver
  performs one sweep and returns 0; it issues no warning and does not reset the dipoles.
  The dipoles it leaves are those of that one sweep.  With the Gauss-Seidel updates off
  (\<^verbatim>\<open>polar_gs\<close> and \<^verbatim>\<open>polar_gs_ranked\<close> both off) the sweep does not write them: they
  are as on entry, which after the first guess of \<^verbatim>\<open>compute\<close> (with \<^verbatim>\<open>use_previous\<close>
  off) is \<open>alpha * E_static * gamma\<close>, relaxation factor included.
\<close>

theorem fixed_zero_iterations:
  assumes "fixed_iteration c" "iterations_max c = 0"
  shows "fst (DipoleSolverIterative e c s) = 0
       \<and> warned (snd (DipoleSolverIterative e c s)) = warned s
       \<and> sweeps (snd (DipoleSolverIterative e c s)) = sweeps s + 1
       \<and> mu_induced (snd (DipoleSolverIterative e c s))
           = mu_induced (contract_dipoles c (save_old_dipoles (solver_entry e c s)))
       \<and> (\<not> polar_gs c \<and> \<not> polar_gs_ranked c \<longrightarrow>
            mu_induced (snd (DipoleSolverIterative e c s)) = mu_induced s
          \<and> (\<not> zodid c \<and> \<not> use_previous c \<longrightarrow>
               (\<forall>i<nlocal s. \<forall>p<3.
                  mu_induced (snd (compute_dipoles e c s)) i p
                  = static_polarizability s i * (ef_static s i p * libm_sqrt e (qqrd2e c))
                      * polar_gamma c)))"
  using assms
  by (simp add: DipoleSolverIterative_fixed_zero sweep_once_def contract_dipoles_jacobi
      compute_dipoles_def solve_dipoles_def initial_guess_values)

theorem fixed_zero_iterations_witness:
  "fixed_iteration fixed_zero \<and> iterations_max fixed_zero = 0
   \<and> fst (DipoleSolverIterative real_env fixed_zero two_particles) = 0
   \<and> \<not> warned (snd (DipoleSolverIterative real_env fixed_zero two_particles))
   \<and> sweeps (snd (DipoleSolverIterative real_env fixed_zero two_particles)) = 1"
  using fixed_zero_iterations[of fixed_zero real_env two_particles]
  by (simp add: fixed_zero_fields two_particles_fields)

text \<open>
  C1 as stated fails.  In the default mode (ranked Gauss-Seidel), entered with dipoles
  \<open>alpha * E_static\<close>, the one sweep gives the second particle the dipole \<open>(2, 0, 0)\<close>, while
  its \<open>alpha * E_static\<close> is zero.
\<close>

theorem fixed_zero_iterations_counterexample:
  "fixed_iteration fixed_zero \<and> iterations_max fixed_zero = 0
   \<and> mu_induced (snd (DipoleSolverIterative real_env fixed_zero two_particles)) 1 0
      \<noteq> static_polarizability two_particles 1 * ef_static two_particles 1 0"
  using gs_example by (simp add: fixed_zero_fields two_particles_fields)

subsection \<open>The upper blocks of the field matrix\<close>

lemma tensor_entry_commute:
  fixes e :: "real env"
  shows "tensor_entry e c x i j p q = tensor_entry e c x i j q p"
  unfolding tensor_entry_def Let_def
  by (simp only: mult_ac eq_commute[of p q])

lemma build_dipole_field_matrix_upper:
  assumes "i < j" "j < nlocal s" "p < 3" "q < 3"
  shows "dipole_field_matrix (build_dipole_field_matrix e c s) (i * 3 + p) (j * 3 + q)
           = tensor_entry e c (atom_x s) i j p q"
    and "dipole_field_matrix (build_dipole_field_matrix e c s) (j * 3 + q) (i * 3 + p)
           = tensor_entry e c (atom_x s) i j q p"
  using assms by (simp_all add: build_dipole_field_matrix_def Let_def tensor_pairs_upper)

section \<open>Lemmas: the diagonal blocks, the ranking, particles without polarizability\<close>

text \<open>Replacing the field matrix by one that differs on the diagonal blocks only.\<close>

definition off_diagonal_equal :: "'a array2 \<Rightarrow> 'a array2 \<Rightarrow> bool" where
  "off_diagonal_equal M M' = (\<forall>a b. a div 3 \<noteq> b div 3 \<longrightarrow> M' a b = M a b)"

lemma fold_replace:
  assumes "Q s"
    and "\<And>x t. x \<in> set xs \<Longrightarrow> Q t \<Longrightarrow> f x (h t) = h (f x t) \<and> Q (f x t)"
  shows "fold f xs (h s) = h (fold f xs s) \<and> Q (fold f xs s)"
  using assms
proof (induction xs arbitrary: s)
  case Nil
  then show ?case by simp
next
  case (Cons x xs)
  have st: "f x (h s) = h (f x s)" "Q (f x s)"
    using Cons.prems(2)[of x s] Cons.prems(1) by simp_all
  have "fold f xs (h (f x s)) = h (fold f xs (f x s)) \<and> Q (fold f xs (f x s))"
    by (rule Cons.IH[OF st(2)]) (use Cons.prems(2) in simp)
  then show ?case using st(1) by simp
qed

lemma block_index: "p < 3 \<Longrightarrow> (k * 3 + p) div 3 = k" for k p :: nat
  by simp

lemma contract_index_replace:
  assumes "off_diagonal_equal (dipole_field_matrix s) M'"
  shows "contract_index k (s\<lparr>dipole_field_matrix := M'\<rparr>)
       = (contract_index k s)\<lparr>dipole_field_matrix := M'\<rparr>"
proof -
  define M where "M = dipole_field_matrix s"
  define h where "h = (\<lambda>t :: 'a state. t\<lparr>dipole_field_matrix := M'\<rparr>)"
  define Q where "Q = (\<lambda>t :: 'a state. dipole_field_matrix t = M)"
  define inner where "inner = (\<lambda>j p q (t :: 'a state).
     t\<lparr>ef_induced := upd2 (ef_induced t) k p
          (ef_induced t k p - dipole_field_matrix t (k * 3 + p) (j * 3 + q) * mu_induced t j q)\<rparr>)"
  have entry: "M' (k * 3 + p) (j * 3 + q) = M (k * 3 + p) (j * 3 + q)"
    if "k \<noteq> j" "p < 3" "q < 3" for j p q
    using assms that unfolding off_diagonal_equal_def M_def by (simp add: block_index)
  have inner: "inner j p q (h t) = h (inner j p q t) \<and> Q (inner j p q t)"
    if "Q t" "k \<noteq> j" "p < 3" "q < 3" for j p q t
    using that entry[of j p q] by (simp add: inner_def h_def Q_def)
  have row: "fold (inner j p) [0..<3] (h t) = h (fold (inner j p) [0..<3] t) \<and> Q (fold (inner j p) [0..<3] t)"
    if "Q t" "k \<noteq> j" "p < 3" for j p t
    by (rule fold_replace[where Q = Q]) (use that inner in auto)
  have block: "fold (\<lambda>p. fold (inner j p) [0..<3]) [0..<3] (h t)
       = h (fold (\<lambda>p. fold (inner j p) [0..<3]) [0..<3] t)
     \<and> Q (fold (\<lambda>p. fold (inner j p) [0..<3]) [0..<3] t)"
    if "Q t" "k \<noteq> j" for j t
    by (rule fold_replace[where Q = Q]) (use that row in auto)
  define step where "step = (\<lambda>j (t :: 'a state).
     if k \<noteq> j then fold (\<lambda>p. fold (inner j p) [0..<3]) [0..<3] t else t)"
  have step: "step j (h t) = h (step j t) \<and> Q (step j t)" if "Q t" for j t
    using block[OF that, of j] that by (simp add: step_def)
  have "fold step [0..<n] (h s) = h (fold step [0..<n] s) \<and> Q (fold step [0..<n] s)" for n
    by (rule fold_replace[where Q = Q]) (use step in \<open>auto simp: Q_def M_def\<close>)
  moreover have "contract_index k t = fold step [0..<nlocal t] t" for t
    unfolding contract_index_def step_def inner_def Let_def ..
  ultimately show ?thesis by (simp add: h_def)
qed


lemma fold_replace_plain:
  assumes "\<And>x t. x \<in> set xs \<Longrightarrow> f x (h t) = h (f x t)"
  shows "fold f xs (h s) = h (fold f xs s)"
  using fold_replace[where Q = "\<lambda>t. True" and f = f and h = h and xs = xs and s = s] assms
  by simp

lemma save_old_dipoles_replace:
  "save_old_dipoles (s\<lparr>dipole_field_matrix := M'\<rparr>) = (save_old_dipoles s)\<lparr>dipole_field_matrix := M'\<rparr>"
  unfolding save_old_dipoles_def
  by (simp, intro fold_replace_plain) simp

lemma update_dipole_replace:
  "update_dipole c k (s\<lparr>dipole_field_matrix := M'\<rparr>) = (update_dipole c k s)\<lparr>dipole_field_matrix := M'\<rparr>"
  unfolding update_dipole_def
  by (intro fold_replace_plain) (simp add: Let_def)

lemma save_dipoles_replace:
  "save_dipoles (s\<lparr>dipole_field_matrix := M'\<rparr>) = (save_dipoles s)\<lparr>dipole_field_matrix := M'\<rparr>"
  unfolding save_dipoles_def
  by (simp, intro fold_replace_plain) simp

lemma reset_dipoles_replace:
  "reset_dipoles (s\<lparr>dipole_field_matrix := M'\<rparr>) = (reset_dipoles s)\<lparr>dipole_field_matrix := M'\<rparr>"
  unfolding reset_dipoles_def
  by (simp, intro fold_replace_plain) simp

lemma precision_test_replace:
  "precision_test c (s\<lparr>dipole_field_matrix := M'\<rparr>) = (precision_test c s)\<lparr>dipole_field_matrix := M'\<rparr>"
  by (simp add: precision_test_def dipole_change_def)

lemma contract_dipoles_replace:
  assumes "off_diagonal_equal (dipole_field_matrix s) M'"
  shows "contract_dipoles c (s\<lparr>dipole_field_matrix := M'\<rparr>)
       = (contract_dipoles c s)\<lparr>dipole_field_matrix := M'\<rparr>"
proof -
  define h where "h = (\<lambda>t :: 'a state. t\<lparr>dipole_field_matrix := M'\<rparr>)"
  define Q where "Q = (\<lambda>t :: 'a state. off_diagonal_equal (dipole_field_matrix t) M')"
  define step where "step = (\<lambda>i (t :: 'a state).
     let index = ranked_array t ! i in update_dipole c index (contract_index index t))"
  have step: "step i (h t) = h (step i t) \<and> Q (step i t)" if "Q t" for i t
    using that
    by (simp add: step_def h_def Q_def Let_def contract_index_replace update_dipole_replace)
  have "fold step [0..<n] (h s) = h (fold step [0..<n] s) \<and> Q (fold step [0..<n] s)" for n
    by (rule fold_replace[where Q = Q]) (use step assms in \<open>auto simp: Q_def\<close>)
  moreover have "contract_dipoles c t = fold step [0..<nlocal t] t" for t
    unfolding contract_dipoles_def step_def ..
  ultimately show ?thesis by (simp add: h_def)
qed

lemma sweep_once_replace:
  assumes "off_diagonal_equal (dipole_field_matrix s) M'"
  shows "sweep_once c (s\<lparr>dipole_field_matrix := M'\<rparr>) = (sweep_once c s)\<lparr>dipole_field_matrix := M'\<rparr>"
  using assms by (simp add: sweep_once_def save_old_dipoles_replace contract_dipoles_replace)

lemma finish_pass_replace:
  "finish_pass c (s\<lparr>dipole_field_matrix := M'\<rparr>)
     = (fst (finish_pass c s), (snd (finish_pass c s))\<lparr>dipole_field_matrix := M'\<rparr>)"
proof -
  define t where "t = (save_dipoles s)\<lparr>iterations := iterations s + 1\<rparr>"
  have next_state: "(save_dipoles (s\<lparr>dipole_field_matrix := M'\<rparr>))
      \<lparr>iterations := iterations (save_dipoles (s\<lparr>dipole_field_matrix := M'\<rparr>)) + 1\<rparr>
      = t\<lparr>dipole_field_matrix := M'\<rparr>"
    by (simp add: t_def save_dipoles_replace)
  have reset: "reset_dipoles (t\<lparr>dipole_field_matrix := M'\<rparr>)
      = (reset_dipoles t)\<lparr>dipole_field_matrix := M'\<rparr>"
    by (rule reset_dipoles_replace)
  show ?thesis
    unfolding finish_pass_def Let_def next_state reset by (simp add: t_def)
qed

lemma solver_pass_replace:
  assumes "off_diagonal_equal (dipole_field_matrix s) M'"
  shows "solver_pass c (s\<lparr>dipole_field_matrix := M'\<rparr>)
     = (fst (solver_pass c s), (snd (solver_pass c s))\<lparr>dipole_field_matrix := M'\<rparr>)"
  using assms
  by (simp add: solver_pass_def Let_def sweep_once_replace precision_test_replace finish_pass_replace)

lemma finish_pass_matrix: "dipole_field_matrix (snd (finish_pass c s)) = dipole_field_matrix s"
  by (simp add: finish_pass_def Let_def)

lemma solver_pass_matrix: "dipole_field_matrix (snd (solver_pass c s)) = dipole_field_matrix s"
  by (simp add: solver_pass_def Let_def finish_pass_matrix)

lemma solver_loop_replace:
  assumes "off_diagonal_equal (dipole_field_matrix s) M'"
  shows "solver_loop c (s\<lparr>dipole_field_matrix := M'\<rparr>) = (solver_loop c s)\<lparr>dipole_field_matrix := M'\<rparr>"
  using assms
proof (induction c s rule: solver_loop.induct)
  case (1 c s)
  obtain b s' where pass: "solver_pass c s = (b, s')" by (cases "solver_pass c s")
  then have pass': "solver_pass c (s\<lparr>dipole_field_matrix := M'\<rparr>) = (b, s'\<lparr>dipole_field_matrix := M'\<rparr>)"
    using solver_pass_replace[OF "1.prems", of c] by simp
  have mat: "dipole_field_matrix s' = dipole_field_matrix s"
    using solver_pass_matrix[of c s] pass by simp
  show ?case
  proof (cases "keep_iterating s")
    case False
    then show ?thesis by (simp add: solver_loop.simps[of c s] solver_loop.simps[of c "s\<lparr>dipole_field_matrix := M'\<rparr>"])
  next
    case True
    show ?thesis
    proof (cases b)
      case True
      then show ?thesis
        using \<open>keep_iterating s\<close> pass pass'
        by (simp add: solver_loop.simps[of c s] solver_loop.simps[of c "s\<lparr>dipole_field_matrix := M'\<rparr>"])
    next
      case False
      have "solver_loop c (s'\<lparr>dipole_field_matrix := M'\<rparr>) = (solver_loop c s')\<lparr>dipole_field_matrix := M'\<rparr>"
        using "1.IH"[OF \<open>keep_iterating s\<close> pass[symmetric]] False "1.prems" mat by simp
      then show ?thesis
        using \<open>keep_iterating s\<close> pass pass' False
        by (simp add: solver_loop.simps[of c s] solver_loop.simps[of c "s\<lparr>dipole_field_matrix := M'\<rparr>"])
    qed
  qed
qed


text \<open>The ranking is a permutation of the particle indices.\<close>

lemma bubble_pass_mset:
  assumes "length r = n"
  shows "mset (fst (bubble_pass rm n r)) = mset r \<and> length (fst (bubble_pass rm n r)) = n"
proof -
  define step where "step = (\<lambda>j (p :: nat list \<times> bool).
     case p of (r, sorted_flag) \<Rightarrow>
       if rm (r ! j) < rm (r ! (j + 1))
       then (r[j := r ! (j + 1), j + 1 := r ! j], False)
       else (r, sorted_flag))"
  have step: "mset (fst (step j p)) = mset (fst p) \<and> length (fst (step j p)) = n"
    if "length (fst p) = n" "j < n - 1" for j p
  proof -
    obtain r' b where p: "p = (r', b)" by (cases p)
    have "j < length r'" "j + 1 < length r'" using that p by simp_all
    then have "mset (r'[j := r' ! (j + 1), j + 1 := r' ! j]) = mset r'"
      by (rule mset_swap[of "j + 1" r' j, rotated])
    then show ?thesis using that p by (simp add: step_def)
  qed
  have "k \<le> n - 1 \<Longrightarrow> mset (fst (fold step [0..<k] (r, True))) = mset r
        \<and> length (fst (fold step [0..<k] (r, True))) = n" for k
  proof (induction k)
    case 0
    then show ?case using assms by simp
  next
    case (Suc k)
    then show ?case using step[of "fold step [0..<k] (r, True)" k] by simp
  qed
  from this[of "n - 1"] show ?thesis
    unfolding bubble_pass_def step_def by simp
qed

lemma rank_loop_mset:
  assumes "length r = n"
  shows "mset (rank_loop rm n k r) = mset r \<and> length (rank_loop rm n k r) = n"
  using assms
proof (induction k arbitrary: r)
  case 0
  then show ?case by simp
next
  case (Suc k)
  obtain r' b where bp: "bubble_pass rm n r = (r', b)" by (cases "bubble_pass rm n r")
  have r': "mset r' = mset r" "length r' = n"
    using bubble_pass_mset[OF Suc.prems, of rm] bp by simp_all
  show ?case
  proof (cases b)
    case True
    then show ?thesis using bp r' by simp
  next
    case False
    then show ?thesis using bp r' Suc.IH[OF r'(2)] by simp
  qed
qed

definition ranked_ok :: "'a state \<Rightarrow> bool" where
  "ranked_ok s = (length (ranked_array s) = nlocal s \<and> set (ranked_array s) = {0..<nlocal s})"

lemma rank_dipoles_ok: "ranked_ok (rank_dipoles c s)"
proof -
  have "mset (rank_loop (rank_metric s) (nlocal s) (nlocal s) [0..<nlocal s]) = mset [0..<nlocal s]
      \<and> length (rank_loop (rank_metric s) (nlocal s) (nlocal s) [0..<nlocal s]) = nlocal s"
    by (rule rank_loop_mset) simp
  then have "set (rank_loop (rank_metric s) (nlocal s) (nlocal s) [0..<nlocal s]) = {0..<nlocal s}"
      "length (rank_loop (rank_metric s) (nlocal s) (nlocal s) [0..<nlocal s]) = nlocal s"
    by (metis mset_eq_setD set_upt, simp)
  then show ?thesis by (simp add: ranked_ok_def rank_dipoles_def Let_def)
qed

lemma solver_entry_ranked_ok: "ranked_ok (solver_entry e c s)"
  using rank_dipoles_ok[of c "(build_dipole_field_matrix e c s)\<lparr>keep_iterating := True, iterations := 0\<rparr>"]
  by (simp add: solver_entry_def)

lemma ranked_ok_visits:
  assumes "ranked_ok s" "i < nlocal s"
  shows "i \<in> set (map (\<lambda>k. ranked_array s ! k) [0..<nlocal s])"
proof -
  have "map (\<lambda>k. ranked_array s ! k) [0..<nlocal s] = ranked_array s"
    using assms(1) map_nth[of "ranked_array s"] by (simp add: ranked_ok_def)
  then show ?thesis using assms by (simp add: ranked_ok_def)
qed


text \<open>After a sweep every new dipole is \<open>alpha * (E_static + E_induced)\<close>.\<close>

lemma dipole_steps_new:
  "static_polarizability (fold (dipole_step c) ks s) = static_polarizability s
   \<and> ef_static (fold (dipole_step c) ks s) = ef_static s
   \<and> (\<forall>k\<in>set ks. \<forall>p<3. mu_induced_new (fold (dipole_step c) ks s) k p
         = static_polarizability s k
             * (ef_static s k p + ef_induced (fold (dipole_step c) ks s) k p))"
proof (induction ks rule: rev_induct)
  case Nil
  then show ?case by simp
next
  case (snoc k' ks)
  define t where "t = fold (dipole_step c) ks s"
  have fr: "static_polarizability t = static_polarizability s" "ef_static t = ef_static s"
    using snoc by (simp_all add: t_def)
  have IH: "\<And>k p. k \<in> set ks \<Longrightarrow> p < 3 \<Longrightarrow>
      mu_induced_new t k p = static_polarizability s k * (ef_static s k p + ef_induced t k p)"
    using snoc by (simp add: t_def)
  have "fold (dipole_step c) (ks @ [k']) s = dipole_step c k' t" by (simp add: t_def)
  moreover have "mu_induced_new (dipole_step c k' t) k p
      = static_polarizability s k * (ef_static s k p + ef_induced (dipole_step c k' t) k p)"
    if "k \<in> set (ks @ [k'])" "p < 3" for k p
    using that IH[of k p] fr by (auto simp: dipole_step_values new_dipole_def)
  ultimately show ?case using fr by simp
qed

lemma sweep_new_dipoles:
  assumes "ranked_ok s" "i < nlocal s" "p < 3"
  shows "mu_induced_new (contract_dipoles c s) i p
       = static_polarizability s i * (ef_static s i p + ef_induced (contract_dipoles c s) i p)"
proof -
  have "contract_dipoles c s = fold (dipole_step c) (map (\<lambda>k. ranked_array s ! k) [0..<nlocal s]) s"
    by (simp add: contract_dipoles_ranked fold_map comp_def)
  moreover have "\<forall>k\<in>set (map (\<lambda>k. ranked_array s ! k) [0..<nlocal s]). \<forall>p<3.
      mu_induced_new (fold (dipole_step c) (map (\<lambda>k. ranked_array s ! k) [0..<nlocal s]) s) k p
         = static_polarizability s k
             * (ef_static s k p
                + ef_induced (fold (dipole_step c) (map (\<lambda>k. ranked_array s ! k) [0..<nlocal s]) s) k p)"
    using dipole_steps_new[of c "map (\<lambda>k. ranked_array s ! k) [0..<nlocal s]" s] by blast
  ultimately show ?thesis
    using ranked_ok_visits[OF assms(1,2)] assms(3) by (simp only:)
qed

text \<open>
  Particles of polarizability zero.  Every dipole that the code writes for such a particle
  is a product with the factor zero, \<open>0 * x\<close> or \<open>0 * x * gamma\<close>.  The values of this form
  (zero itself included) are collected in a set, for every number type: in exact arithmetic
  the set is \<open>{0}\<close>, in IEEE arithmetic it also holds NaN, the value of \<open>0 * x\<close> for an
  infinite or NaN \<open>x\<close>.
\<close>

inductive_set zero_products :: "'a::{zero,times} set" where
  zero_itself: "0 \<in> zero_products"
| zero_times: "0 * x \<in> zero_products"
| product_times: "z \<in> zero_products \<Longrightarrow> z * x \<in> zero_products"

definition zero_dipoles :: "'a::{zero,times} state \<Rightarrow> bool" where
  "zero_dipoles s =
     (\<forall>i<nlocal s. static_polarizability s i = 0 \<longrightarrow>
        (\<forall>p<3. mu_induced s i p \<in> zero_products))"

definition zero_new_dipoles :: "'a::{zero,times} state \<Rightarrow> bool" where
  "zero_new_dipoles s =
     (\<forall>i<nlocal s. static_polarizability s i = 0 \<longrightarrow>
        (\<forall>p<3. mu_induced_new s i p \<in> zero_products))"

lemma zero_products_real: "(zero_products :: real set) = {0}"
proof -
  have "x = 0" if "x \<in> zero_products" for x :: real
    using that by (induction rule: zero_products.induct) simp_all
  then show ?thesis using zero_itself by blast
qed

lemma initial_guess_zero:
  assumes "use_previous c \<longrightarrow> zero_dipoles s"
  shows "zero_dipoles (initial_guess e c s)"
  using assms
  by (auto simp: zero_dipoles_def initial_guess_values intro: product_times zero_times)

lemma dipole_step_zero:
  assumes "zero_dipoles s"
  shows "zero_dipoles (dipole_step c k s)"
  using assms by (auto simp: zero_dipoles_def dipole_step_values new_dipole_def intro: zero_times)

lemma contract_dipoles_zero:
  assumes "zero_dipoles s"
  shows "zero_dipoles (contract_dipoles c s)"
  unfolding contract_dipoles_ranked
  by (rule fold_invariant[where Q = "\<lambda>_. True" and P = zero_dipoles])
     (simp_all add: assms dipole_step_zero)

lemma sweep_once_zero:
  assumes "zero_dipoles s"
  shows "zero_dipoles (sweep_once c s)"
proof -
  have "zero_dipoles (save_old_dipoles s)" using assms by (simp add: zero_dipoles_def)
  then have "zero_dipoles (contract_dipoles c (save_old_dipoles s))" by (rule contract_dipoles_zero)
  then show ?thesis by (simp add: zero_dipoles_def sweep_once_def)
qed

lemma ranked_ok_frame:
  "ranked_ok s \<Longrightarrow> ranked_array t = ranked_array s \<Longrightarrow> nlocal t = nlocal s \<Longrightarrow> ranked_ok t"
  by (simp add: ranked_ok_def)

lemma sweep_once_zero_new:
  assumes "ranked_ok s"
  shows "zero_new_dipoles (sweep_once c s)"
proof -
  have ok: "ranked_ok (save_old_dipoles s)"
    by (rule ranked_ok_frame[OF assms]) simp_all
  have "mu_induced_new (contract_dipoles c (save_old_dipoles s)) i p \<in> zero_products"
    if "i < nlocal s" "static_polarizability s i = 0" "p < 3" for i p
    using sweep_new_dipoles[OF ok, of i p c] that by (simp add: zero_times)
  then show ?thesis by (simp add: zero_new_dipoles_def sweep_once_def)
qed

lemma save_dipoles_zero:
  assumes "zero_new_dipoles s"
  shows "zero_dipoles (save_dipoles s)"
  using assms by (simp add: zero_dipoles_def zero_new_dipoles_def save_dipoles_mu)

lemma reset_dipoles_zero: "zero_dipoles (reset_dipoles s)"
  by (simp add: zero_dipoles_def reset_dipoles_mu zero_times)

lemma finish_pass_zero:
  assumes "zero_new_dipoles s"
  shows "zero_dipoles (snd (finish_pass c s))"
proof -
  have "zero_dipoles ((save_dipoles s)\<lparr>iterations := iterations s + 1\<rparr>)"
    using save_dipoles_zero[OF assms] by (simp add: zero_dipoles_def)
  moreover have "zero_dipoles ((reset_dipoles ((save_dipoles s)\<lparr>iterations := iterations s + 1\<rparr>))\<lparr>warned := True\<rparr>)"
    using reset_dipoles_zero[of "(save_dipoles s)\<lparr>iterations := iterations s + 1\<rparr>"]
    by (simp add: zero_dipoles_def)
  ultimately show ?thesis by (simp add: finish_pass_def Let_def)
qed

lemma finish_pass_ranked:
  "ranked_array (snd (finish_pass c s)) = ranked_array s" "nlocal (snd (finish_pass c s)) = nlocal s"
  by (simp_all add: finish_pass_def Let_def)

lemma solver_pass_ranked:
  "ranked_array (snd (solver_pass c s)) = ranked_array s" "nlocal (snd (solver_pass c s)) = nlocal s"
  by (simp_all add: solver_pass_def Let_def finish_pass_ranked)

lemma solver_pass_zero:
  assumes "zero_dipoles s" "ranked_ok s"
  shows "zero_dipoles (snd (solver_pass c s))"
proof -
  have new: "zero_new_dipoles (sweep_once c s)" by (rule sweep_once_zero_new[OF assms(2)])
  then have "zero_new_dipoles (precision_test c (sweep_once c s))"
    by (simp add: zero_new_dipoles_def)
  then show ?thesis
    using new sweep_once_zero[OF assms(1), of c]
    by (simp add: solver_pass_def Let_def finish_pass_zero)
qed

lemma solver_loop_zero:
  assumes "zero_dipoles s" "ranked_ok s"
  shows "zero_dipoles (solver_loop c s)"
  using assms
proof (induction c s rule: solver_loop.induct)
  case (1 c s)
  obtain b s' where pass: "solver_pass c s = (b, s')" by (cases "solver_pass c s")
  have s': "zero_dipoles s'"
    using solver_pass_zero[OF "1.prems", of c] pass by simp
  have ok': "ranked_ok s'"
    by (rule ranked_ok_frame[OF "1.prems"(2)]) (use solver_pass_ranked[of c s] pass in simp_all)
  show ?case
  proof (cases "keep_iterating s")
    case False
    then show ?thesis using "1.prems" by (simp add: solver_loop.simps[of c s])
  next
    case True
    show ?thesis
    proof (cases b)
      case True
      then show ?thesis using \<open>keep_iterating s\<close> pass s' by (simp add: solver_loop.simps[of c s])
    next
      case False
      have "zero_dipoles (solver_loop c s')"
        using "1.IH"[OF \<open>keep_iterating s\<close> pass[symmetric]] False s' ok' by simp
      then show ?thesis using \<open>keep_iterating s\<close> pass False by (simp add: solver_loop.simps[of c s])
    qed
  qed
qed

lemma DipoleSolverIterative_zero:
  assumes "zero_dipoles s"
  shows "zero_dipoles (snd (DipoleSolverIterative e c s))"
proof -
  have "zero_dipoles (solver_entry e c s)" using assms by (simp add: zero_dipoles_def)
  then show ?thesis
    by (simp add: DipoleSolverIterative_loop solver_loop_zero solver_entry_ranked_ok)
qed

lemma compute_dipoles_zero:
  assumes "use_previous c \<longrightarrow> zero_dipoles s"
  shows "zero_dipoles (snd (compute_dipoles e c s))"
  using initial_guess_zero[OF assms, of e]
  by (simp add: compute_dipoles_def solve_dipoles_def DipoleSolverIterative_zero)

lemma self_energy_zero:
  "static_polarizability s i = 0 \<Longrightarrow> self_energy c i s = s"
  by (simp add: self_energy_def)
















lemma zero_matrix_apply:
  "zero_matrix N m a b = (if a < 3 * N \<and> b < 3 * N then 0 else m a b)"
  using fold_block_write[where ra = 0 and ca = 0 and g = "\<lambda>_ _. 0" and n = "3 * N" and k = "3 * N" and m = m and a = a and b = b]
  by (simp add: zero_matrix_def)

lemma diagonal_blocks_apply:
  "diagonal_blocks e N alpha m a b =
     (if a = b \<and> a < 3 * N
      then (if alpha (a div 3) \<noteq> 0 then 1 / alpha (a div 3) else DBL_MAX e)
      else m a b)"
proof -
  define v where "v = (\<lambda>i. if alpha i \<noteq> 0 then 1 / alpha i else DBL_MAX e)"
  define row where "row = (\<lambda>i. fold (\<lambda>p m. let ii = i * 3 in
                   if alpha i \<noteq> 0 then upd2 m (ii + p) (ii + p) (1 / alpha i)
                   else upd2 m (ii + p) (ii + p) (DBL_MAX e)) [0..<3])"
  have row: "row i m a b = (if a = b \<and> a div 3 = i then v i else m a b)" for i m a b
  proof -
    have "a div 3 = i \<longleftrightarrow> a = i * 3 \<or> a = i * 3 + 1 \<or> a = i * 3 + 2" by arith
    then show ?thesis
      by (auto simp: row_def upt3 Let_def upd2_apply v_def)
  qed
  have "fold row [0..<n] m a b = (if a = b \<and> a < 3 * n then v (a div 3) else m a b)" for n
  proof (induction n)
    case 0
    then show ?case by simp
  next
    case (Suc n)
    have "fold row [0..<Suc n] m a b = row n (fold row [0..<n] m) a b" by simp
    also have "\<dots> = (if a = b \<and> a div 3 = n then v n else fold row [0..<n] m a b)"
      by (rule row)
    finally show ?case using Suc by (auto simp: less_Suc_eq)
  qed
  moreover have "diagonal_blocks e N alpha m = fold row [0..<N] m"
    unfolding diagonal_blocks_def row_def ..
  ultimately show ?thesis by (simp add: v_def)
qed

lemma build_dipole_field_matrix_diagonal:
  assumes "i < nlocal s" "p < 3" "q < 3"
  shows "dipole_field_matrix (build_dipole_field_matrix e c s) (i * 3 + p) (i * 3 + q) =
     (if p = q
      then (if static_polarizability s i \<noteq> 0 then 1 / static_polarizability s i else DBL_MAX e)
      else 0)"
proof -
  have dm: "(i * 3 + p) div 3 = i" "(i * 3 + q) div 3 = i" using assms by simp_all
  have lt: "k \<in> set [0..<nlocal s - 1] \<Longrightarrow> k < nlocal s" for k by simp
  have "tensor_pairs e c (nlocal s) (atom_x s) m (i * 3 + p) (i * 3 + q) = m (i * 3 + p) (i * 3 + q)" for m
    unfolding tensor_pairs_def
    using tensor_pairs_block[of "[0..<nlocal s - 1]" "nlocal s" e c "atom_x s" m "i * 3 + p" "i * 3 + q", OF lt]
    by (simp only: dm) simp
  then show ?thesis
    using assms
    by (auto simp: build_dipole_field_matrix_def Let_def diagonal_blocks_apply zero_matrix_apply dm)
qed


lemma solver_entry_matrix:
  "dipole_field_matrix (solver_entry e c s) = dipole_field_matrix (build_dipole_field_matrix e c s)"
  by (simp add: solver_entry_def)

text \<open>The second particle of the pair is not polarizable.\<close>

definition one_unpolarizable :: "real state" where
  "one_unpolarizable = two_particles\<lparr>static_polarizability := (\<lambda>i. if i = 0 then 1 else 0)\<rparr>"

definition carry_over :: "real settings" where
  "carry_over = default_settings\<lparr>use_previous := True\<rparr>"

text \<open>... and carries the dipole \<open>(1, 0, 0)\<close> over from before.\<close>

definition stale_dipole :: "real state" where
  "stale_dipole = one_unpolarizable\<lparr>mu_induced := (\<lambda>i p. if p = 0 then 1 else 0)\<rparr>"

definition entry_state :: "real state" where
  "entry_state = solver_entry real_env default_settings one_unpolarizable"

definition diagonal_cleared :: "real array2" where
  "diagonal_cleared = (\<lambda>a b. if a div 3 = b div 3 then 0 else dipole_field_matrix entry_state a b)"

lemma one_unpolarizable_fields:
  "nlocal one_unpolarizable = 2"
  "static_polarizability one_unpolarizable = (\<lambda>i. if i = 0 then 1 else 0)"
  "mu_induced one_unpolarizable = (\<lambda>i p. if i = 0 \<and> p = 0 then 1 else 0)"
  by (simp_all add: one_unpolarizable_def two_particles_fields)

lemma default_settings_fields:
  "\<not> fixed_iteration default_settings" "\<not> use_previous default_settings"
  "\<not> zodid default_settings" "polar_gs_ranked default_settings"
  by (simp_all add: default_settings_def)

lemma entry_state_sentinel: "dipole_field_matrix entry_state 3 3 = DBL_MAX real_env"
  using build_dipole_field_matrix_diagonal[of 1 one_unpolarizable 0 0 real_env default_settings]
  by (simp add: entry_state_def solver_entry_matrix one_unpolarizable_fields)

lemma solver_loop_nlocal: "nlocal (solver_loop c s) = nlocal s"
proof (induction c s rule: solver_loop.induct)
  case (1 c s)
  obtain b s' where pass: "solver_pass c s = (b, s')" by (cases "solver_pass c s")
  have s': "nlocal s' = nlocal s" using solver_pass_ranked(2)[of c s] pass by simp
  show ?case
  proof (cases "keep_iterating s")
    case False
    then show ?thesis by (simp add: solver_loop.simps[of c s])
  next
    case True
    then show ?thesis
      using pass s' "1.IH"[OF True pass[symmetric]]
      by (cases b) (simp_all add: solver_loop.simps[of c s])
  qed
qed

lemma compute_dipoles_nlocal: "nlocal (snd (compute_dipoles e c s)) = nlocal s"
  by (simp add: compute_dipoles_def solve_dipoles_def DipoleSolverIterative_loop solver_loop_nlocal
      initial_guess_values)

lemma solver_loop_alpha: "static_polarizability (solver_loop c s) = static_polarizability s"
proof (induction c s rule: solver_loop.induct)
  case (1 c s)
  obtain b s' where pass: "solver_pass c s = (b, s')" by (cases "solver_pass c s")
  have "static_polarizability (snd (solver_pass c s)) = static_polarizability s"
    by (simp add: solver_pass_def finish_pass_def Let_def)
  then have s': "static_polarizability s' = static_polarizability s" using pass by simp
  show ?case
  proof (cases "keep_iterating s")
    case False
    then show ?thesis by (simp add: solver_loop.simps[of c s])
  next
    case True
    then show ?thesis
      using pass s' "1.IH"[OF True pass[symmetric]]
      by (cases b) (simp_all add: solver_loop.simps[of c s])
  qed
qed

lemma compute_dipoles_alpha:
  "static_polarizability (snd (compute_dipoles e c s)) = static_polarizability s"
  by (simp add: compute_dipoles_def solve_dipoles_def DipoleSolverIterative_loop solver_loop_alpha
      initial_guess_values)


section \<open>The claims, continued\<close>

text \<open>
  C10.  The contraction reads the field matrix only in blocks \<open>(index, j)\<close> with
  \<open>j \<noteq> index\<close>.  So the sweep, and the whole solver loop, do the same on two matrices that
  differ on the diagonal blocks only, whatever these hold, the \<^verbatim>\<open>DBL_MAX\<close> sentinel of a
  particle without polarizability included: the induced field, the dipoles and every other
  field of the result are the same.
\<close>

theorem diagonal_blocks_not_read:
  assumes "\<forall>a b. a div 3 \<noteq> b div 3 \<longrightarrow> M' a b = dipole_field_matrix s a b"
  shows "contract_dipoles c (s\<lparr>dipole_field_matrix := M'\<rparr>)
           = (contract_dipoles c s)\<lparr>dipole_field_matrix := M'\<rparr>
       \<and> solver_loop c (s\<lparr>dipole_field_matrix := M'\<rparr>)
           = (solver_loop c s)\<lparr>dipole_field_matrix := M'\<rparr>"
  using assms
  by (simp add: contract_dipoles_replace solver_loop_replace off_diagonal_equal_def)

theorem diagonal_blocks_not_read_witness:
  "dipole_field_matrix entry_state 3 3 = DBL_MAX real_env
   \<and> diagonal_cleared 3 3 = 0
   \<and> mu_induced (solver_loop default_settings (entry_state\<lparr>dipole_field_matrix := diagonal_cleared\<rparr>))
       = mu_induced (solver_loop default_settings entry_state)
   \<and> ef_induced (contract_dipoles default_settings (entry_state\<lparr>dipole_field_matrix := diagonal_cleared\<rparr>))
       = ef_induced (contract_dipoles default_settings entry_state)"
  using diagonal_blocks_not_read[of diagonal_cleared entry_state default_settings]
  by (simp add: entry_state_sentinel) (simp add: diagonal_cleared_def)





section \<open>Lemmas: the molecule rule\<close>






text \<open>The displacement that \<^verbatim>\<open>compute\<close> takes for the pair \<open>(i, j)\<close>.\<close>

definition displacement ::
  "'a::minus env \<Rightarrow> 'a state \<Rightarrow> nat \<Rightarrow> nat \<Rightarrow> nat \<Rightarrow> 'a" where
  "displacement e s i j p = atom_x s i p - closest_image e (atom_x s i) (atom_x s j) p"











subsection \<open>The molecule rule\<close>



section \<open>Lemmas: coincident particles\<close>

lemma numeral_dbl: "(numeral n :: dbl) = Fin (numeral n)"
proof (induction n)
  case One
  then show ?case by (simp add: one_dbl_def)
next
  case (Bit0 n)
  show ?case by (simp only: numeral_Bit0 plus_dbl_def Bit0 dbl_add.simps)
next
  case (Bit1 n)
  show ?case by (simp only: numeral_Bit1 plus_dbl_def one_dbl_def Bit1 dbl_add.simps)
qed

lemmas dbl_arith = numeral_dbl zero_dbl_def one_dbl_def plus_dbl_def minus_dbl_def uminus_dbl_def
  times_dbl_def divide_dbl_def less_dbl_def less_eq_dbl_def

lemma dbl_nan [simp]:
  "NaN + x = NaN" "x + NaN = NaN" "NaN - x = NaN" "x - NaN = NaN" "NaN * x = NaN" "x * NaN = NaN"
  by (cases x; simp add: dbl_arith)+

lemma dbl_times_zero: "x * Fin 0 = Fin 0 \<or> x * Fin 0 = NaN"
  by (cases x) (simp_all add: dbl_arith)

lemma dbl_dot_zero:
  "x * Fin 0 + y * Fin 0 + z * Fin 0 = Fin 0 \<or> x * Fin 0 + y * Fin 0 + z * Fin 0 = NaN"
  using dbl_times_zero[of x] dbl_times_zero[of y] dbl_times_zero[of z]
  by (auto simp: dbl_arith)

lemma dbl_inf_dot_zero: "PInf * (x * Fin 0 + y * Fin 0 + z * Fin 0) = NaN"
  using dbl_dot_zero[of x y z] by (auto simp: dbl_arith)

lemma coincident_geometry:
  "Fin 0 * Fin 0 + Fin 0 * Fin 0 + Fin 0 * Fin 0 = Fin 0"
  "1 / Fin 0 = PInf" "dbl_sqrt PInf = PInf" "1 / PInf = Fin 0" "PInf * PInf = PInf"
  "numeral n * PInf = PInf"
  by (simp_all add: dbl_arith)

lemma dipole_dipole_block_coincident:
  assumes "libm_sqrt e = dbl_sqrt" "damping_type c = DAMPING_NONE"
    and "static_polarizability s i \<noteq> 0" "static_polarizability s j \<noteq> 0"
  shows "dipole_dipole_block e c s i j (Fin 0) (Fin 0) (Fin 0) (fx, fy, fz, u) =
     (NaN, NaN, NaN, if eflag c then NaN else u)"
  using assms
  by (simp add: dipole_dipole_block_def Let_def coincident_geometry dbl_inf_dot_zero)


lemma dbl_inf_times_zero: "PInf * x * Fin 0 = NaN"
  by (cases x) (simp_all add: dbl_arith)

lemma damped_geometry:
  "dbl_exp (- Fin a * Fin 0) = Fin 1"
  "1 + Fin a * Fin 0 + 1 / 2 * Fin a * Fin a * Fin 0 * Fin 0 = Fin 1"
  "1 - Fin 1 * Fin 1 = Fin 0"
  by (simp_all add: dbl_arith)

lemma dipole_dipole_block_coincident_damped:
  assumes "libm_sqrt e = dbl_sqrt" "libm_exp e = dbl_exp" "polar_damp c = Fin a"
    and "damping_type c = DAMPING_EXPONENTIAL"
    and "static_polarizability s i \<noteq> 0" "static_polarizability s j \<noteq> 0"
  shows "dipole_dipole_block e c s i j (Fin 0) (Fin 0) (Fin 0) (fx, fy, fz, u) =
     (NaN, NaN, NaN, if eflag c then NaN else u)"
  using assms
  by (simp add: dipole_dipole_block_def Let_def coincident_geometry dbl_inf_dot_zero
      damped_geometry dbl_inf_times_zero)


lemma dipole_dipole_block_coincident_any:
  assumes "libm_sqrt e = dbl_sqrt" "libm_exp e = dbl_exp" "is_finite (polar_damp c)"
    and "static_polarizability s i \<noteq> 0" "static_polarizability s j \<noteq> 0"
  shows "dipole_dipole_block e c s i j (Fin 0) (Fin 0) (Fin 0) acc =
     (NaN, NaN, NaN, if eflag c then NaN else snd (snd (snd acc)))"
proof -
  obtain fx fy fz u where acc: "acc = (fx, fy, fz, u)" by (cases acc)
  obtain a where a: "polar_damp c = Fin a" using assms(3) by (cases "polar_damp c") simp_all
  show ?thesis
  proof (cases "damping_type c")
    case DAMPING_EXPONENTIAL
    then show ?thesis
      using dipole_dipole_block_coincident_damped[OF assms(1,2) a DAMPING_EXPONENTIAL assms(4,5)]
      by (simp add: acc)
  next
    case DAMPING_NONE
    then show ?thesis
      using dipole_dipole_block_coincident[OF assms(1) DAMPING_NONE assms(4,5)] by (simp add: acc)
  qed
qed

lemma apply_pair_force_nan:
  "apply_pair_force f i j (NaN, NaN, NaN) i 0 = NaN"
  by (simp add: apply_pair_force_def add2_def sub2_def upd2_apply Let_def)

lemma apply_pair_force_sticky:
  assumes "f i p = NaN"
  shows "apply_pair_force f i' j' force i p = NaN"
proof -
  obtain fx fy fz where "force = (fx, fy, fz)" by (cases force)
  then show ?thesis
    using assms by (auto simp add: apply_pair_force_def add2_def sub2_def upd2_apply Let_def)
qed

lemma polar_pair_frame [simp]:
  "nlocal (polar_pair e c i j s) = nlocal s"
  "atom_x (polar_pair e c i j s) = atom_x s"
  "static_polarizability (polar_pair e c i j s) = static_polarizability s"
  "u_polar_self (polar_pair e c i j s) = u_polar_self s"
  by (simp_all add: polar_pair_def Let_def split: prod.splits)

lemma self_energy_frame [simp]:
  "nlocal (self_energy c i s) = nlocal s"
  "atom_x (self_energy c i s) = atom_x s"
  "atom_f (self_energy c i s) = atom_f s"
  "static_polarizability (self_energy c i s) = static_polarizability s"
  "u_polar_ef (self_energy c i s) = u_polar_ef s"
  "u_polar_dd (self_energy c i s) = u_polar_dd s"
  by (simp_all add: self_energy_def Let_def)

lemma polar_pair_coincident:
  assumes "libm_sqrt e = dbl_sqrt" "libm_exp e = dbl_exp" "is_finite (polar_damp c)"
    and "displacement e s i j 0 = Fin 0" "displacement e s i j 1 = Fin 0"
        "displacement e s i j 2 = Fin 0"
    and "static_polarizability s i \<noteq> 0" "static_polarizability s j \<noteq> 0"
  shows "atom_f (polar_pair e c i j s) i 0 = NaN"
    and "eflag c \<Longrightarrow> u_polar_dd (polar_pair e c i j s) = NaN"
proof -
  have d: "atom_x s i 0 - closest_image e (atom_x s i) (atom_x s j) 0 = Fin 0"
          "atom_x s i 1 - closest_image e (atom_x s i) (atom_x s j) 1 = Fin 0"
          "atom_x s i 2 - closest_image e (atom_x s i) (atom_x s j) 2 = Fin 0"
    using assms(4-6) by (simp_all add: displacement_def)
  show "atom_f (polar_pair e c i j s) i 0 = NaN"
    using d
    by (simp add: polar_pair_def Let_def apply_pair_force_nan split: prod.splits
        add: dipole_dipole_block_coincident_any[OF assms(1-3,7,8)])
  show "eflag c \<Longrightarrow> u_polar_dd (polar_pair e c i j s) = NaN"
    using d
    by (simp add: polar_pair_def Let_def split: prod.splits
        add: dipole_dipole_block_coincident_any[OF assms(1-3,7,8)])
qed

lemma polar_pair_sticky:
  "atom_f s i p = NaN \<Longrightarrow> atom_f (polar_pair e c i' j' s) i p = NaN"
  by (simp add: polar_pair_def Let_def apply_pair_force_sticky split: prod.splits)

lemma fold_sticky:
  assumes "P s" "\<And>x t. P t \<Longrightarrow> P (f x t)"
  shows "P (fold f xs s)"
  using assms(1) by (induction xs arbitrary: s) (simp_all add: assms(2))

lemma fold_trigger:
  assumes inv: "\<And>x t. I t \<Longrightarrow> I (f x t)"
    and sticky: "\<And>x t. P t \<Longrightarrow> P (f x t)"
    and trig: "\<And>t. I t \<Longrightarrow> P (f k t)"
    and mem: "k \<in> set xs" and start: "I s"
  shows "P (fold f xs s)"
  using mem start
proof (induction xs arbitrary: s)
  case Nil
  then show ?case by simp
next
  case (Cons x xs)
  show ?case
  proof (cases "x = k")
    case True
    have "P (f k s)" using Cons.prems(2) by (rule trig)
    then have "P (fold f xs (f k s))"
      by (rule fold_sticky[where P = P and f = f]) (rule sticky)
    then show ?thesis using True by simp
  next
    case False
    then have "k \<in> set xs" using Cons.prems(1) by simp
    moreover have "I (f x s)" using Cons.prems(2) by (rule inv)
    ultimately have "P (fold f xs (f x s))" by (rule Cons.IH)
    then show ?thesis by simp
  qed
qed

lemma dipole_dipole_block_energy_sticky:
  "snd (snd (snd (dipole_dipole_block e c s i j delx dely delz (fx, fy, fz, NaN)))) = NaN"
  by (simp add: dipole_dipole_block_def Let_def split: prod.splits)

lemma polar_pair_energy_sticky:
  "u_polar_dd s = NaN \<Longrightarrow> u_polar_dd (polar_pair e c i j (s :: dbl state)) = NaN"
  using dipole_dipole_block_energy_sticky[of e c s i j]
  by (simp add: polar_pair_def Let_def split: prod.splits) (metis snd_conv)

definition force_not_finite :: "dbl settings \<Rightarrow> nat \<Rightarrow> dbl state \<Rightarrow> bool" where
  "force_not_finite c i t = (atom_f t i 0 = NaN \<and> (if eflag c then u_polar_dd t = NaN else True))"

definition same_particles :: "dbl state \<Rightarrow> dbl state \<Rightarrow> bool" where
  "same_particles s t = (atom_x t = atom_x s \<and> static_polarizability t = static_polarizability s)"

lemma polar_forces_coincident:
  assumes "libm_sqrt e = dbl_sqrt" "libm_exp e = dbl_exp" "is_finite (polar_damp c)"
    and ij: "i < j" "j < nlocal s"
    and disp: "displacement e s i j 0 = Fin 0" "displacement e s i j 1 = Fin 0"
        "displacement e s i j 2 = Fin 0"
    and alpha: "static_polarizability s i \<noteq> 0" "static_polarizability s j \<noteq> 0"
  shows "atom_f (polar_forces e c s) i 0 = NaN"
    and "eflag c \<Longrightarrow> eng_pol (polar_forces e c s) = NaN"
proof -
  define n where "n = nlocal s"
  define s0 where "s0 = s\<lparr>u_polar_self := 0, u_polar_ef := 0, u_polar_dd := 0\<rparr>"
  define inner where "inner = (\<lambda>a t. fold (\<lambda>b. polar_pair e c a b) [a + 1..<n] (self_energy c a t))"
  define s1 where "s1 = fold inner [0..<n] s0"
  have sticky_pair: "force_not_finite c i (polar_pair e c a b t)" if "force_not_finite c i t" for a b t
    using that by (simp add: force_not_finite_def polar_pair_sticky polar_pair_energy_sticky)
  have inv_pair: "same_particles s (polar_pair e c a b t)" if "same_particles s t" for a b t
    using that by (simp add: same_particles_def)
  have trig_pair: "force_not_finite c i (polar_pair e c i j t)" if "same_particles s t" for t
  proof -
    have d: "displacement e t i j 0 = Fin 0" "displacement e t i j 1 = Fin 0"
        "displacement e t i j 2 = Fin 0"
      using that disp by (simp_all add: displacement_def same_particles_def)
    have a: "static_polarizability t i \<noteq> 0" "static_polarizability t j \<noteq> 0"
      using that alpha by (simp_all add: same_particles_def)
    show ?thesis
      using polar_pair_coincident[OF assms(1-3) d a] by (simp add: force_not_finite_def)
  qed
  have sticky_inner: "force_not_finite c i (inner a t)" if "force_not_finite c i t" for a t
  proof -
    have "force_not_finite c i (self_energy c a t)"
      using that by (simp add: force_not_finite_def)
    then show ?thesis
      unfolding inner_def
      by (rule fold_sticky[where P = "force_not_finite c i" and f = "polar_pair e c a"])
         (rule sticky_pair)
  qed
  have inv_inner: "same_particles s (inner a t)" if "same_particles s t" for a t
  proof -
    have "same_particles s (self_energy c a t)"
      using that by (simp add: same_particles_def)
    then show ?thesis
      unfolding inner_def
      by (rule fold_sticky[where P = "same_particles s" and f = "polar_pair e c a"])
         (rule inv_pair)
  qed
  have trig_inner: "force_not_finite c i (inner i t)" if "same_particles s t" for t
  proof -
    have "same_particles s (self_energy c i t)"
      using that by (simp add: same_particles_def)
    moreover have "j \<in> set [i + 1..<n]" using ij by (simp add: n_def)
    ultimately show ?thesis
      unfolding inner_def
      using fold_trigger[where I = "same_particles s" and P = "force_not_finite c i"
          and f = "polar_pair e c i" and k = j and xs = "[i + 1..<n]"
          and s = "self_energy c i t", OF inv_pair sticky_pair trig_pair]
      by blast
  qed
  have "i \<in> set [0..<n]" using ij by (simp add: n_def)
  moreover have "same_particles s s0" by (simp add: same_particles_def s0_def)
  ultimately have P: "force_not_finite c i s1"
    unfolding s1_def
    using fold_trigger[where I = "same_particles s" and P = "force_not_finite c i"
        and f = inner and k = i and xs = "[0..<n]" and s = s0,
        OF inv_inner sticky_inner trig_inner]
    by blast
  have pf: "polar_forces e c s = s1\<lparr>eng_pol := u_polar_self s1 + u_polar_ef s1 + u_polar_dd s1\<rparr>"
    unfolding polar_forces_def Let_def s1_def inner_def s0_def n_def ..
  show "atom_f (polar_forces e c s) i 0 = NaN"
    using P by (simp add: pf force_not_finite_def)
  show "eflag c \<Longrightarrow> eng_pol (polar_forces e c s) = NaN"
    using P by (simp add: pf force_not_finite_def)
qed

lemma tensor_entry_coincident:
  assumes "libm_sqrt e = dbl_sqrt" "libm_exp e = dbl_exp" "is_finite (DBL_MAX e)"
    and "is_finite (polar_damp c)"
    and "displacement e s i j 0 = Fin 0" "displacement e s i j 1 = Fin 0"
        "displacement e s i j 2 = Fin 0"
    and "p < 3" "q < 3"
  shows "is_finite (tensor_entry e c (atom_x s) i j p q)"
proof -
  obtain a where a: "polar_damp c = Fin a" using assms(4) by (cases "polar_damp c") simp_all
  obtain d where m: "DBL_MAX e = Fin d" using assms(3) by (cases "DBL_MAX e") simp_all
  have d0: "atom_x s i 0 - closest_image e (atom_x s i) (atom_x s j) 0 = Fin 0"
    and d1: "atom_x s i 1 - closest_image e (atom_x s i) (atom_x s j) 1 = Fin 0"
    and d2: "atom_x s i 2 - closest_image e (atom_x s i) (atom_x s j) 2 = Fin 0"
    using assms(5-7) unfolding displacement_def by blast+
  have dp: "atom_x s i p - closest_image e (atom_x s i) (atom_x s j) p = Fin 0"
    using assms(8) d0 d1 d2 unfolding less_3_cases by blast
  have dq: "atom_x s i q - closest_image e (atom_x s i) (atom_x s j) q = Fin 0"
    using assms(9) d0 d1 d2 unfolding less_3_cases by blast
  show ?thesis
    unfolding tensor_entry_def Let_def d0 d1 d2 dp dq
    by (cases "damping_type c")
       (simp_all add: inverse_powers_def damping_terms_def assms(1,2) a m dbl_arith)
qed

text \<open>
  The environment with the arithmetic of \<open>dbl\<close>, the default settings, and two
  polarizable particles of one molecule at the same position.
\<close>

definition dbl_env :: "dbl env" where
  "dbl_env = \<lparr>libm_sqrt = dbl_sqrt, libm_exp = dbl_exp, DBL_MAX = Fin (2 ^ 1024 - 2 ^ 971),
              closest_image = (\<lambda>xi xj. xj)\<rparr>"

definition dbl_settings :: "dbl settings" where
  "dbl_settings = \<lparr>iterations_max = 50, damping_type = DAMPING_NONE, polar_damp = Fin 2.1304,
     zodid = False, polar_precision = Fin 0.00000000001, fixed_iteration = False,
     polar_gs = False, polar_gs_ranked = True, polar_gamma = Fin 1.03, use_previous = False,
     cut_coul = Fin 10, cut_coulsq = Fin 100, qqrd2e = Fin 1, eflag = True\<rparr>"

definition coincident_pair :: "dbl state" where
  "coincident_pair = \<lparr>nlocal = 2,
     atom_x = (\<lambda>i p. Fin 0),
     atom_q = (\<lambda>i. Fin 0),
     atom_f = (\<lambda>i p. Fin 0), molecule = (\<lambda>i. 1), static_polarizability = (\<lambda>i. Fin 1),
     ef_static = (\<lambda>i p. Fin 0),
     mu_induced = (\<lambda>i p. Fin 0),
     ef_induced = (\<lambda>i p. Fin 0),
     mu_induced_new = (\<lambda>i p. Fin 0), mu_induced_old = (\<lambda>i p. Fin 0),
     dipole_field_matrix = (\<lambda>i p. Fin 0), ranked_array = [], rank_metric = (\<lambda>i. Fin 0),
     iterations = 0, keep_iterating = False, warned = False, sweeps = 0, precision_tests = 0,
     u_polar_self = Fin 0, u_polar_ef = Fin 0, u_polar_dd = Fin 0, eng_pol = Fin 0\<rparr>"

lemma dbl_env_fields:
  "libm_sqrt dbl_env = dbl_sqrt" "libm_exp dbl_env = dbl_exp"
  "DBL_MAX dbl_env = Fin (2 ^ 1024 - 2 ^ 971)" "closest_image dbl_env = (\<lambda>xi xj. xj)"
  by (simp_all add: dbl_env_def)

lemma dbl_settings_fields:
  "polar_damp dbl_settings = Fin 2.1304" "eflag dbl_settings"
  by (simp_all add: dbl_settings_def)

lemma coincident_pair_fields:
  "nlocal coincident_pair = 2" "atom_x coincident_pair = (\<lambda>i p. Fin 0)"
  "static_polarizability coincident_pair = (\<lambda>i. Fin 1)"
  by (simp_all add: coincident_pair_def)

subsection \<open>Coincident particles\<close>

text \<open>
  C8 (what the code does).  Take the arithmetic of \<open>dbl\<close>, a finite \<^verbatim>\<open>DBL_MAX\<close> and a
  finite damping parameter, and two polarizable particles \<open>i < j\<close> whose displacement, as
  \<^verbatim>\<open>compute\<close> takes it, is zero on all three axes.  In \<^verbatim>\<open>build_dipole_field_matrix\<close> the
  guard \<^verbatim>\<open>r == 0\<close> replaces both inverse powers by \<^verbatim>\<open>DBL_MAX\<close>, and the entries of the
  two blocks of the pair are finite.  The force loop of \<^verbatim>\<open>compute\<close> has no such guard: it
  divides by \<^verbatim>\<open>rsq = 0\<close>, the dipole-dipole block multiplies the infinite inverse powers by
  zero, and the force on particle \<open>i\<close> and the polarization energy come out as NaN, whatever
  the charges and the dipoles are.
\<close>

theorem coincident_pair_force_nan:
  assumes "libm_sqrt e = dbl_sqrt" "libm_exp e = dbl_exp" "is_finite (DBL_MAX e)"
    and "is_finite (polar_damp c)"
    and "i < j" "j < nlocal s" "p < 3" "q < 3"
    and "displacement e s i j 0 = Fin 0" "displacement e s i j 1 = Fin 0"
        "displacement e s i j 2 = Fin 0"
    and "static_polarizability s i \<noteq> 0" "static_polarizability s j \<noteq> 0"
  shows "inverse_powers e (libm_sqrt e (Fin 0)) = (DBL_MAX e, DBL_MAX e)
       \<and> is_finite (dipole_field_matrix (build_dipole_field_matrix e c s) (i * 3 + p) (j * 3 + q))
       \<and> is_finite (dipole_field_matrix (build_dipole_field_matrix e c s) (j * 3 + q) (i * 3 + p))
       \<and> atom_f (polar_forces e c s) i 0 = NaN
       \<and> (eflag c \<longrightarrow> eng_pol (polar_forces e c s) = NaN)"
proof -
  have "inverse_powers e (libm_sqrt e (Fin 0)) = (DBL_MAX e, DBL_MAX e)"
    by (simp add: inverse_powers_def assms(1) zero_dbl_def)
  moreover have "is_finite (tensor_entry e c (atom_x s) i j p q)"
    using assms(1-4,9-11,7,8) by (rule tensor_entry_coincident)
  moreover have "is_finite (tensor_entry e c (atom_x s) i j q p)"
    using assms(1-4,9-11,8,7) by (rule tensor_entry_coincident)
  moreover have "atom_f (polar_forces e c s) i 0 = NaN"
    using assms(1,2,4-6,9-13) by (rule polar_forces_coincident(1))
  moreover have "eng_pol (polar_forces e c s) = NaN" if "eflag c"
    using assms(1,2,4-6,9-13) that by (rule polar_forces_coincident(2))
  ultimately show ?thesis
    by (simp add: build_dipole_field_matrix_upper[OF assms(5-8)])
qed

theorem coincident_pair_force_nan_witness:
  "static_polarizability coincident_pair 0 \<noteq> 0 \<and> static_polarizability coincident_pair 1 \<noteq> 0
   \<and> displacement dbl_env coincident_pair 0 1 0 = Fin 0
   \<and> displacement dbl_env coincident_pair 0 1 1 = Fin 0
   \<and> displacement dbl_env coincident_pair 0 1 2 = Fin 0
   \<and> inverse_powers dbl_env (libm_sqrt dbl_env (Fin 0)) = (DBL_MAX dbl_env, DBL_MAX dbl_env)
   \<and> is_finite (dipole_field_matrix (build_dipole_field_matrix dbl_env dbl_settings coincident_pair) 0 3)
   \<and> is_finite (dipole_field_matrix (build_dipole_field_matrix dbl_env dbl_settings coincident_pair) 3 0)
   \<and> atom_f (polar_forces dbl_env dbl_settings coincident_pair) 0 0 = NaN
   \<and> eng_pol (polar_forces dbl_env dbl_settings coincident_pair) = NaN"
  using coincident_pair_force_nan[of dbl_env dbl_settings 0 1 coincident_pair 0 0]
  by (simp add: dbl_env_fields dbl_settings_fields coincident_pair_fields displacement_def
      dbl_arith)


section \<open>Lemmas: non-finite values in the solver\<close>

lemma dbl_nan_compare [simp]:
  "\<not> x < NaN" "\<not> NaN < x" "\<not> x \<le> NaN" "\<not> NaN \<le> x" "NaN / x = NaN" "x / NaN = NaN"
  by (cases x; simp add: dbl_arith)+

lemma zero_products_dbl: "(zero_products :: dbl set) = {Fin 0, NaN}"
proof -
  have "x = Fin 0 \<or> x = NaN" if "x \<in> zero_products" for x :: dbl
    using that
  proof (induction rule: zero_products.induct)
    case zero_itself
    then show ?case by (simp add: zero_dbl_def)
  next
    case (zero_times x)
    then show ?case by (cases x) (simp_all add: dbl_arith)
  next
    case (product_times z x)
    then show ?case by (cases x) (auto simp: dbl_arith)
  qed
  moreover have "Fin 0 \<in> (zero_products :: dbl set)"
    using zero_itself[where 'a = dbl] by (simp add: zero_dbl_def)
  moreover have "NaN \<in> (zero_products :: dbl set)"
    using zero_times[of "NaN :: dbl"] by simp
  ultimately show ?thesis by blast
qed

lemma dbl_round_special: "dbl_round (Fin 0) = Fin 0" "dbl_round NaN = NaN"
  by (simp_all add: dbl_round.simps round53_def max_double_def)

lemma b64_times_zero:
  "B64 (Fin 0) * x = B64 (Fin 0) \<or> B64 (Fin 0) * x = B64 NaN" "B64 NaN * x = B64 NaN"
proof -
  obtain d where x: "x = B64 d" by (cases x)
  show "B64 (Fin 0) * x = B64 (Fin 0) \<or> B64 (Fin 0) * x = B64 NaN"
    by (cases d) (simp_all add: x times_b64_def dbl_arith dbl_round_special)
  show "B64 NaN * x = B64 NaN"
    by (simp add: x times_b64_def dbl_round_special)
qed

lemma b64_zero_times_finite: "b64_finite x \<Longrightarrow> 0 * x = (0 :: b64)"
proof -
  assume fin: "b64_finite x"
  obtain d where x: "x = B64 d" by (cases x)
  then obtain r where d: "d = Fin r" using fin by (cases d) simp_all
  show ?thesis by (simp add: x d zero_b64_def times_b64_def dbl_arith dbl_round_special)
qed

text \<open>
  In double precision the dipole written for a particle of polarizability zero is zero
  whenever the field it is multiplied with is finite.
\<close>

lemma zero_dipole_finite:
  fixes t :: "b64 state"
  assumes "i < nlocal t" "p < 3" "static_polarizability t i = 0"
  shows "\<not> use_previous c \<Longrightarrow> b64_finite (ef_static (initial_guess e c t) i p) \<Longrightarrow>
           b64_finite (polar_gamma c) \<Longrightarrow> mu_induced (initial_guess e c t) i p = 0"
    and "ranked_ok t \<Longrightarrow>
           b64_finite (ef_static t i p + ef_induced (contract_dipoles c t) i p) \<Longrightarrow>
           mu_induced_new (contract_dipoles c t) i p = 0"
    and "b64_finite (ef_static t i p) \<Longrightarrow> mu_induced (reset_dipoles t) i p = 0"
proof -
  show "mu_induced (initial_guess e c t) i p = 0"
    if "\<not> use_previous c" "b64_finite (ef_static (initial_guess e c t) i p)"
      "b64_finite (polar_gamma c)"
    using that assms by (simp add: initial_guess_values b64_zero_times_finite)
  show "mu_induced_new (contract_dipoles c t) i p = 0"
    if "ranked_ok t" "b64_finite (ef_static t i p + ef_induced (contract_dipoles c t) i p)"
    using sweep_new_dipoles[OF that(1) assms(1,2), of c] that(2) assms(3)
    by (simp add: b64_zero_times_finite)
  show "mu_induced (reset_dipoles t) i p = 0" if "b64_finite (ef_static t i p)"
    using that assms by (simp add: reset_dipoles_mu b64_zero_times_finite)
qed

lemma zero_products_b64: "(zero_products :: b64 set) = {B64 (Fin 0), B64 NaN}"
proof -
  have "x = B64 (Fin 0) \<or> x = B64 NaN" if "x \<in> zero_products" for x :: b64
    using that
  proof (induction rule: zero_products.induct)
    case zero_itself
    then show ?case by (simp add: zero_b64_def)
  next
    case (zero_times x)
    then show ?case using b64_times_zero(1)[of x] by (simp add: zero_b64_def)
  next
    case (product_times z x)
    then show ?case using b64_times_zero[of x] by auto
  qed
  moreover have "B64 (Fin 0) \<in> (zero_products :: b64 set)"
    using zero_itself[where 'a = b64] by (simp add: zero_b64_def)
  moreover have "B64 NaN \<in> (zero_products :: b64 set)"
    using zero_times[of "B64 NaN"] by (simp add: zero_b64_def times_b64_def dbl_round_special)
  ultimately show ?thesis by blast
qed






text \<open>
  Two particles without a molecule at the same position, both charged, the first one
  polarizable: the state in which \<^verbatim>\<open>compute\<close> starts, the state after the static-field
  loop, and the state after the first guess.
\<close>

definition coincident_charges :: "dbl state" where
  "coincident_charges = \<lparr>nlocal = 2,
     atom_x = (\<lambda>i p. Fin 0),
     atom_q = (\<lambda>i. Fin 1),
     atom_f = (\<lambda>i p. Fin 0), molecule = (\<lambda>i. 0),
     static_polarizability = (\<lambda>i. if i = 0 then Fin 1 else Fin 0),
     ef_static = (\<lambda>i p. Fin 0),
     mu_induced = (\<lambda>i p. Fin 0),
     ef_induced = (\<lambda>i p. Fin 0),
     mu_induced_new = (\<lambda>i p. Fin 0), mu_induced_old = (\<lambda>i p. Fin 0),
     dipole_field_matrix = (\<lambda>i p. Fin 0), ranked_array = [], rank_metric = (\<lambda>i. Fin 0),
     iterations = 0, keep_iterating = False, warned = False, sweeps = 0, precision_tests = 0,
     u_polar_self = Fin 0, u_polar_ef = Fin 0, u_polar_dd = Fin 0, eng_pol = Fin 0\<rparr>"

definition coincident_field :: "dbl state" where
  "coincident_field = static_field dbl_env dbl_settings coincident_charges"


lemma dbl_settings_solver_fields:
  "\<not> fixed_iteration dbl_settings" "iterations_max dbl_settings = 50"
  "\<not> use_previous dbl_settings" "\<not> zodid dbl_settings"
  "cut_coul dbl_settings = Fin 10" "cut_coulsq dbl_settings = Fin 100"
  "qqrd2e dbl_settings = Fin 1" "polar_gamma dbl_settings = Fin 1.03"
  "polar_precision dbl_settings = Fin 0.00000000001"
  by (simp_all add: dbl_settings_def)

lemma coincident_field_values:
  "nlocal coincident_field = 2"
  "static_polarizability coincident_field = (\<lambda>i. if i = 0 then Fin 1 else Fin 0)"
  "warned coincident_field = False" "sweeps coincident_field = 0"
  "\<forall>i<2. \<forall>p<3. ef_static coincident_field i p = NaN"
  by (simp_all add: coincident_field_def static_field_def clear_static_field_def
      static_field_pair_def static_field_update_def molecule_rule_def f_shift_def add2_def sub2_def
      upd2_apply coincident_charges_def dbl_env_fields dbl_settings_solver_fields upt_small
      Let_def dbl_arith less_3_cases less_2_cases_iff)




section \<open>Lemmas: evaluation in double precision\<close>

lemma pow2_powr: "pow2 k = 2 powr (of_int k)"
proof (cases "0 \<le> k")
  case True
  then have "2 powr (of_int k) = (2 :: real) ^ nat k"
    by (simp add: powr_realpow[symmetric])
  then show ?thesis using True by (simp add: pow2_def)
next
  case False
  then have "2 powr (of_int k) = 1 / (2 :: real) ^ nat (- k)"
    using powr_minus_divide[of 2 "of_int (- k)"] by (simp add: powr_realpow[symmetric])
  then show ?thesis using False by (simp add: pow2_def)
qed

lemma pow2_pos: "0 < pow2 k"
  by (simp add: pow2_powr)

lemma round53_normal:
  assumes "- 1074 \<le> k" "2 ^ 52 \<le> \<bar>x / pow2 k\<bar>" "\<bar>x / pow2 k\<bar> < 2 ^ 53"
  shows "round53 x = of_int (round_half_even (x / pow2 k)) * pow2 k"
proof -
  have x0: "x \<noteq> 0" using assms(2) by auto
  have ax: "\<bar>x / pow2 k\<bar> = \<bar>x\<bar> / pow2 k" using pow2_pos[of k] by simp
  have lo: "2 powr (of_int (k + 52)) \<le> \<bar>x\<bar>"
  proof -
    have "2 powr (of_int (k + 52)) = 2 ^ 52 * pow2 k"
      by (simp add: pow2_powr powr_add powr_realpow[symmetric])
    also have "\<dots> \<le> \<bar>x\<bar>" using assms(2) pow2_pos[of k] by (simp add: ax pos_le_divide_eq)
    finally show ?thesis .
  qed
  have hi: "\<bar>x\<bar> < 2 powr (of_int (k + 52) + 1)"
  proof -
    have "2 powr (of_int (k + 52) + 1) = 2 ^ 53 * pow2 k"
      by (simp add: pow2_powr powr_add powr_realpow[symmetric])
    moreover have "\<bar>x\<bar> < 2 ^ 53 * pow2 k"
      using assms(3) pow2_pos[of k] by (simp add: ax pos_divide_less_eq)
    ultimately show ?thesis by simp
  qed
  have "\<lfloor>log 2 \<bar>x\<bar>\<rfloor> = k + 52"
    using floor_log_eq_powr_iff[of "\<bar>x\<bar>" 2 "k + 52"] x0 lo hi by simp
  then show ?thesis using x0 assms(1) by (simp add: round53_def)
qed

lemma round_half_even_bounds:
  "\<bar>of_int (round_half_even q) - q\<bar> \<le> 1 / 2"
  unfolding round_half_even_def Let_def by (auto simp: abs_if) linarith+

lemma dbl_round_eval:
  assumes "- 1074 \<le> k" "k \<le> 970" "2 ^ 52 \<le> \<bar>x / pow2 k\<bar>" "\<bar>x / pow2 k\<bar> < 2 ^ 53"
    and "round_half_even (x / pow2 k) = n"
  shows "dbl_round (Fin x) = Fin (of_int n * pow2 k)"
proof -
  have r: "round53 x = of_int n * pow2 k"
    using round53_normal[OF assms(1,3,4)] assms(5) by simp
  have "\<bar>of_int n - x / pow2 k\<bar> \<le> 1 / 2"
    using round_half_even_bounds[of "x / pow2 k"] assms(5) by simp
  then have "\<bar>real_of_int n\<bar> < 2 ^ 53 + 1" using assms(4) by linarith
  then have "real_of_int \<bar>n\<bar> < real_of_int (2 ^ 53 + 1)" by simp
  then have "\<bar>n\<bar> < 2 ^ 53 + 1" by (simp only: of_int_less_iff)
  then have "\<bar>n\<bar> \<le> 2 ^ 53" by simp
  then have "real_of_int \<bar>n\<bar> \<le> real_of_int (2 ^ 53)" by (simp only: of_int_le_iff)
  then have n: "\<bar>real_of_int n\<bar> \<le> 2 ^ 53" by simp
  have "pow2 k \<le> 2 ^ 970"
  proof (cases "0 \<le> k")
    case True
    then have "nat k \<le> 970" using assms(2) by simp
    then have "(2 :: real) ^ nat k \<le> 2 ^ 970" by (intro power_increasing) simp_all
    then show ?thesis using True by (simp add: pow2_def)
  next
    case False
    have "1 / (2 :: real) ^ nat (- k) \<le> 1" by simp
    also have "\<dots> \<le> 2 ^ 970" by simp
    finally show ?thesis using False by (simp add: pow2_def)
  qed
  then have "\<bar>real_of_int n\<bar> * pow2 k \<le> 2 ^ 53 * 2 ^ 970"
    using n pow2_pos[of k] by (intro mult_mono) simp_all
  then have "\<bar>real_of_int n * pow2 k\<bar> \<le> 2 ^ 53 * 2 ^ 970"
    using pow2_pos[of k] by (simp only: abs_mult abs_of_pos)
  also have "\<dots> \<le> max_double" by (simp add: max_double_def)
  finally have "\<bar>real_of_int n * pow2 k\<bar> \<le> max_double" .
  then show ?thesis using r by (auto simp: Let_def dbl_round.simps)
qed

lemma dbl_round_zero: "dbl_round (Fin 0) = Fin 0"
  by (simp add: dbl_round.simps round53_def max_double_def)

lemma b64_zero: "0 = b64_of 0 0"
  by (simp add: b64_of_def zero_b64_def)

lemma b64_one: "1 = b64_of 1 0"
  by (simp add: b64_of_def one_b64_def pow2_def)

lemma b64_of_eq_iff: "b64_of m k = b64_of m' k' \<longleftrightarrow> of_int m * pow2 k = of_int m' * pow2 k'"
  by (simp add: b64_of_def)

lemma b64_of_mul:
  assumes "dbl_round (Fin (of_int a * pow2 ka * (of_int b * pow2 kb))) = Fin (of_int m * pow2 k)"
  shows "b64_of a ka * b64_of b kb = b64_of m k"
  using assms by (simp add: b64_of_def times_b64_def times_dbl_def)

lemma b64_of_add:
  assumes "dbl_round (Fin (of_int a * pow2 ka + of_int b * pow2 kb)) = Fin (of_int m * pow2 k)"
  shows "b64_of a ka + b64_of b kb = b64_of m k"
  using assms by (simp add: b64_of_def plus_b64_def plus_dbl_def)

lemma b64_of_sub:
  assumes "dbl_round (Fin (of_int a * pow2 ka - of_int b * pow2 kb)) = Fin (of_int m * pow2 k)"
  shows "b64_of a ka - b64_of b kb = b64_of m k"
  using assms by (simp add: b64_of_def minus_b64_def minus_dbl_def)

lemma b64_of_div:
  assumes "dbl_round (Fin (of_int a * pow2 ka / (of_int b * pow2 kb))) = Fin (of_int m * pow2 k)"
    and "b \<noteq> 0"
  shows "b64_of a ka / b64_of b kb = b64_of m k"
  using assms pow2_pos[of kb] by (simp add: b64_of_def divide_b64_def divide_dbl_def)

lemma b64_of_uminus: "- b64_of m k = b64_of (- m) k"
  by (simp add: b64_of_def uminus_b64_def uminus_dbl_def)

lemma round_half_even_unique:
  assumes "of_int n - 1 / 2 < q" "q < of_int n + 1 / 2"
  shows "round_half_even q = n"
proof (cases "of_int n \<le> q")
  case True
  then have "\<lfloor>q\<rfloor> = n" using assms(2) by linarith
  then show ?thesis using assms(2) by (simp add: round_half_even_def)
next
  case False
  then have "\<lfloor>q\<rfloor> = n - 1" using assms(1) by linarith
  then show ?thesis using assms(1) by (simp add: round_half_even_def)
qed

lemma b64_of_sqrt:
  assumes "- 1074 \<le> k" "k \<le> 970" "2 ^ 52 < n" "n < 2 ^ 53" "0 \<le> a"
    and "((of_int n - 1 / 2) * pow2 k)\<^sup>2 < of_int a * pow2 ka"
    and "of_int a * pow2 ka < ((of_int n + 1 / 2) * pow2 k)\<^sup>2"
  shows "b64_sqrt (b64_of a ka) = b64_of n k"
proof -
  define y where "y = of_int a * pow2 ka"
  define q where "q = sqrt y / pow2 k"
  have n: "2 ^ 52 + 1 \<le> real_of_int n" "real_of_int n \<le> 2 ^ 53 - 1"
  proof -
    have "2 ^ 52 + 1 \<le> n" "n \<le> 2 ^ 53 - 1" using assms(3,4) by simp_all
    then have "real_of_int (2 ^ 52 + 1) \<le> real_of_int n" "real_of_int n \<le> real_of_int (2 ^ 53 - 1)"
      by (simp_all only: of_int_le_iff)
    then show "2 ^ 52 + 1 \<le> real_of_int n" "real_of_int n \<le> 2 ^ 53 - 1" by simp_all
  qed
  have y0: "0 \<le> y" using assms(5) pow2_pos[of ka] by (simp add: y_def)
  have "(of_int n - 1 / 2) * pow2 k < sqrt y"
    using assms(6) by (intro real_less_rsqrt) (simp add: y_def)
  then have lo: "of_int n - 1 / 2 < q"
    using pow2_pos[of k] by (simp add: q_def pos_less_divide_eq)
  have "0 \<le> (of_int n + 1 / 2) * pow2 k" using n pow2_pos[of k] by simp
  then have "sqrt y < (of_int n + 1 / 2) * pow2 k"
    using assms(7) y0 by (intro real_less_lsqrt) (simp_all add: y_def)
  then have hi: "q < of_int n + 1 / 2"
    using pow2_pos[of k] by (simp add: q_def pos_divide_less_eq)
  have r: "round_half_even q = n" using lo hi by (rule round_half_even_unique)
  have p: "(0 :: real) < 2 ^ 52" "(2 :: real) ^ 53 = 2 * 2 ^ 52" by simp_all
  have q0: "0 \<le> q" using lo n p by linarith
  have "dbl_round (Fin (sqrt y)) = Fin (of_int n * pow2 k)"
  proof (rule dbl_round_eval[OF assms(1,2)])
    show "2 ^ 52 \<le> \<bar>sqrt y / pow2 k\<bar>" using lo n q0 p unfolding q_def by linarith
    show "\<bar>sqrt y / pow2 k\<bar> < 2 ^ 53" using hi n q0 p unfolding q_def by linarith
    show "round_half_even (sqrt y / pow2 k) = n" using r by (simp add: q_def)
  qed
  then show ?thesis using y0 by (simp add: b64_of_def y_def not_less[symmetric])
qed

lemma offset_pair_arithmetic:
  "b64_of 0 0 - b64_of 7205759403792794 (- 56) = b64_of (- 7205759403792794) (- 56)"
  "b64_of 0 0 - b64_of 5404319552844595 (- 54) = b64_of (- 5404319552844595) (- 54)"
  "b64_of (- 7205759403792794) (- 56) * b64_of (- 7205759403792794) (- 56) = b64_of 5764607523034236 (- 59)"
  "b64_of (- 5404319552844595) (- 54) * b64_of (- 5404319552844595) (- 54) = b64_of 6485183463413514 (- 56)"
  "b64_of 5764607523034236 (- 59) + b64_of 6485183463413514 (- 56) = b64_of 7205759403792794 (- 56)"
  "b64_of 7205759403792794 (- 56) + b64_of 0 0 = b64_of 7205759403792794 (- 56)"
  "b64_of 5696652996790543 (- 54) * b64_of 5696652996790543 (- 54) = b64_of 7205759403792794 (- 56)"
  "b64_of 7205759403792794 (- 56) * b64_of 5696652996790543 (- 54) = b64_of 4557322397432435 (- 57)"
  "b64_of 4557322397432435 (- 57) * b64_of 5696652996790543 (- 54) = b64_of 5764607523034236 (- 59)"
  "b64_of 5764607523034236 (- 59) * b64_of 5696652996790543 (- 54) = b64_of 7291715835891896 (- 61)"
  "b64_of 1 0 / b64_of 4557322397432435 (- 57) = b64_of 8901020307485222 (- 48)"
  "b64_of 1 0 / b64_of 7291715835891896 (- 61) = b64_of 5563137692178264 (- 44)"
  "b64_of 1 0 + b64_of 1 0 = b64_of 4503599627370496 (- 51)"
  "b64_of 4503599627370496 (- 51) + b64_of 1 0 = b64_of 6755399441055744 (- 51)"
  "b64_of (- 6755399441055744) (- 51) * b64_of (- 7205759403792794) (- 56) = b64_of 5404319552844596 (- 54)"
  "b64_of 5404319552844596 (- 54) * b64_of (- 5404319552844595) (- 54) = b64_of (- 6485183463413515) (- 56)"
  "b64_of (- 6485183463413515) (- 56) * b64_of 1 0 = b64_of (- 6485183463413515) (- 56)"
  "b64_of (- 6485183463413515) (- 56) * b64_of 5563137692178264 (- 44) = b64_of (- 8010918276736701) (- 48)"
  "b64_of (- 6755399441055744) (- 51) * b64_of (- 5404319552844595) (- 54) = b64_of 8106479329266892 (- 53)"
  "b64_of 8106479329266892 (- 53) * b64_of (- 7205759403792794) (- 56) = b64_of (- 6485183463413514) (- 56)"
  "b64_of (- 6485183463413514) (- 56) * b64_of 1 0 = b64_of (- 6485183463413514) (- 56)"
  "b64_of (- 6485183463413514) (- 56) * b64_of 5563137692178264 (- 44) = b64_of (- 8010918276736700) (- 48)"
  by ((rule b64_of_mul b64_of_add b64_of_sub b64_of_div, rule dbl_round_eval;
       simp add: pow2_def round_half_even_def))+

lemma offset_pair_zero:
  "b64_of 0 0 - b64_of 0 0 = b64_of 0 0"
  "b64_of 0 0 * b64_of 0 0 = b64_of 0 0"
  by ((rule b64_of_mul b64_of_add b64_of_sub; simp add: dbl_round_zero))+

lemma offset_pair_sqrt:
  "b64_sqrt (b64_of 7205759403792794 (- 56)) = b64_of 5696652996790543 (- 54)"
  by (rule b64_of_sqrt) (simp_all add: pow2_def power2_eq_square)

lemma offset_pair_minus_three:
  "- (b64_of 6755399441055744 (- 51)) = b64_of (- 6755399441055744) (- 51)"
  by (simp add: b64_of_uminus)

text \<open>
  The environment and the default settings in double precision, and two particles, the
  second at \<open>(0.1, 0.3, 0)\<close> from the first (the doubles nearest to \<open>0.1\<close> and \<open>0.3\<close>).
\<close>

definition b64_env :: "b64 env" where
  "b64_env = \<lparr>libm_sqrt = b64_sqrt, libm_exp = b64_exp, DBL_MAX = b64_of 9007199254740991 971,
              closest_image = (\<lambda>xi xj. xj)\<rparr>"

definition b64_settings :: "b64 settings" where
  "b64_settings = \<lparr>iterations_max = 50, damping_type = DAMPING_NONE,
     polar_damp = b64_of 4797234323075052 (- 51),
     zodid = False, polar_precision = b64_of 6189700196426901 (- 89), fixed_iteration = False,
     polar_gs = False, polar_gs_ranked = True, polar_gamma = b64_of 4638707616191611 (- 52),
     use_previous = False,
     cut_coul = b64_of 5629499534213120 (- 49), cut_coulsq = b64_of 7036874417766400 (- 46),
     qqrd2e = 1, eflag = True\<rparr>"

definition offset_pair :: "b64 state" where
  "offset_pair = \<lparr>nlocal = 2,
     atom_x = (\<lambda>i p. if i = 1 \<and> p = 0 then b64_of 7205759403792794 (- 56)
                     else if i = 1 \<and> p = 1 then b64_of 5404319552844595 (- 54) else 0),
     atom_q = (\<lambda>i. 0),
     atom_f = (\<lambda>i p. 0), molecule = (\<lambda>i. 0), static_polarizability = (\<lambda>i. 1),
     ef_static = (\<lambda>i p. 0),
     mu_induced = (\<lambda>i p. 0),
     ef_induced = (\<lambda>i p. 0),
     mu_induced_new = (\<lambda>i p. 0), mu_induced_old = (\<lambda>i p. 0),
     dipole_field_matrix = (\<lambda>i p. 0), ranked_array = [], rank_metric = (\<lambda>i. 0),
     iterations = 0, keep_iterating = False, warned = False, sweeps = 0, precision_tests = 0,
     u_polar_self = 0, u_polar_ef = 0, u_polar_dd = 0, eng_pol = 0\<rparr>"

lemma offset_pair_fields:
  "nlocal offset_pair = 2"
  "atom_x offset_pair = (\<lambda>i p. if i = 1 \<and> p = 0 then b64_of 7205759403792794 (- 56)
                     else if i = 1 \<and> p = 1 then b64_of 5404319552844595 (- 54) else 0)"
  "libm_sqrt b64_env = b64_sqrt" "closest_image b64_env = (\<lambda>xi xj. xj)"
  "damping_type b64_settings = DAMPING_NONE"
  by (simp_all add: offset_pair_def b64_env_def b64_settings_def)

lemma offset_pair_entries:
  "tensor_entry b64_env b64_settings (atom_x offset_pair) 0 1 0 1
     = b64_of (- 8010918276736701) (- 48)"
  "tensor_entry b64_env b64_settings (atom_x offset_pair) 0 1 1 0
     = b64_of (- 8010918276736700) (- 48)"
  by (simp_all add: tensor_entry_def Let_def inverse_powers_def damping_terms_def
      offset_pair_fields b64_zero b64_one offset_pair_arithmetic offset_pair_zero
      offset_pair_sqrt b64_of_uminus b64_of_eq_iff pow2_def)


text \<open>The second particle of the pair without polarizability.\<close>

definition unpolarizable_offset :: "b64 state" where
  "unpolarizable_offset = offset_pair\<lparr>static_polarizability := (\<lambda>i. if i = 0 then 1 else 0)\<rparr>"

lemma unpolarizable_offset_fields:
  "nlocal unpolarizable_offset = 2"
  "static_polarizability unpolarizable_offset = (\<lambda>i. if i = 0 then 1 else 0)"
  "ef_static unpolarizable_offset = (\<lambda>i p. 0)"
  by (simp_all add: unpolarizable_offset_def offset_pair_def)

section \<open>The claims, concluded\<close>

subsection \<open>Precision mode on a field that is not finite\<close>



subsection \<open>Particles without polarizability\<close>

text \<open>
  C6 (as the code has it).  For every number type, every component of the dipole of a
  particle of polarizability zero is a product with the factor zero after the first guess,
  after every sweep, after every pass of the loop (dipoles saved or reset) and at the end,
  provided the first guess is made (\<^verbatim>\<open>use_previous\<close> off) or the dipoles carried over are
  of that kind already; and the self-energy step of such a particle leaves the energy as it
  is.  In exact arithmetic a product with the factor zero is zero; in IEEE arithmetic, with
  or without rounding, it is zero or NaN, and in double precision it is zero whenever the
  field that is multiplied (and the relaxation factor, in the first guess) is finite.
\<close>

theorem zero_polarizability_dipoles:
  fixes t' :: "b64 state"
  assumes "use_previous c \<longrightarrow> zero_dipoles s"
  shows "zero_dipoles (initial_guess e c s)
       \<and> zero_dipoles (snd (compute_dipoles e c s))
       \<and> (\<forall>t. zero_dipoles t \<and> ranked_ok t \<longrightarrow>
              zero_dipoles (sweep_once c t) \<and> zero_dipoles (snd (solver_pass c t)))
       \<and> (\<forall>t. zero_dipoles (reset_dipoles t))
       \<and> (\<forall>t i. static_polarizability t i = 0 \<longrightarrow> self_energy c i t = t)
       \<and> (zero_products :: real set) = {0}
       \<and> (zero_products :: dbl set) = {Fin 0, NaN}
       \<and> (zero_products :: b64 set) = {B64 (Fin 0), B64 NaN}
       \<and> (i < nlocal t' \<and> p < 3 \<and> static_polarizability t' i = 0 \<longrightarrow>
            (\<not> use_previous c' \<and> b64_finite (ef_static (initial_guess e' c' t') i p)
               \<and> b64_finite (polar_gamma c')
             \<longrightarrow> mu_induced (initial_guess e' c' t') i p = 0)
          \<and> (ranked_ok t'
               \<and> b64_finite (ef_static t' i p + ef_induced (contract_dipoles c' t') i p)
             \<longrightarrow> mu_induced_new (contract_dipoles c' t') i p = 0)
          \<and> (b64_finite (ef_static t' i p) \<longrightarrow> mu_induced (reset_dipoles t') i p = 0))"
  using initial_guess_zero[OF assms] compute_dipoles_zero[OF assms]
    zero_dipole_finite(1)[where i = i and t = t' and p = p and c = c' and e = e']
    zero_dipole_finite(2)[where i = i and t = t' and p = p and c = c']
    zero_dipole_finite(3)[where i = i and t = t' and p = p]
  by (simp add: sweep_once_zero solver_pass_zero reset_dipoles_zero self_energy_zero
      zero_products_real zero_products_dbl zero_products_b64)

theorem zero_polarizability_dipoles_witness:
  "\<not> use_previous default_settings
   \<and> static_polarizability one_unpolarizable 1 = 0
   \<and> mu_induced (initial_guess real_env default_settings one_unpolarizable) 1 0 = 0
   \<and> mu_induced (snd (compute_dipoles real_env default_settings one_unpolarizable)) 1 0 = 0
   \<and> static_polarizability unpolarizable_offset 1 = 0
   \<and> b64_finite (ef_static unpolarizable_offset 1 0)
   \<and> mu_induced (reset_dipoles unpolarizable_offset) 1 0 = 0"
  using zero_polarizability_dipoles[where c = default_settings and s = one_unpolarizable
      and e = real_env and t' = unpolarizable_offset and i = 1 and p = 0
      and c' = b64_settings and e' = b64_env]
  by (auto simp add: zero_dipoles_def default_settings_fields compute_dipoles_nlocal
      compute_dipoles_alpha initial_guess_values one_unpolarizable_fields
      unpolarizable_offset_fields zero_b64_def zero_products_real)

text \<open>
  C6 as stated fails.  With \<^verbatim>\<open>use_previous\<close> on, the first guess is skipped and a dipole
  carried over by a particle of polarizability zero is still there after that step.  With
  \<^verbatim>\<open>use_previous\<close> off and a static field that is not finite (two charged particles at the
  same position), the first guess of the particle of polarizability zero is \<open>0 * NaN\<close>, which
  is NaN.
\<close>

theorem zero_polarizability_dipoles_counterexample:
  "use_previous carry_over \<and> static_polarizability stale_dipole 1 = 0
   \<and> mu_induced (initial_guess real_env carry_over stale_dipole) 1 0 \<noteq> 0
   \<and> \<not> use_previous dbl_settings \<and> static_polarizability coincident_field 1 = 0
   \<and> mu_induced (initial_guess dbl_env dbl_settings coincident_field) 1 0 = NaN
   \<and> mu_induced (initial_guess dbl_env dbl_settings coincident_field) 1 0 \<noteq> 0"
  using coincident_field_values(5)
  by (simp add: initial_guess_values carry_over_def stale_dipole_def one_unpolarizable_def
      dbl_settings_solver_fields coincident_field_values zero_dbl_def)

subsection \<open>The field matrix\<close>

text \<open>
  C5 (as the code has it).  After \<^verbatim>\<open>build_dipole_field_matrix\<close>, for all particles
  \<open>i \<noteq> j\<close> the block \<open>(j, i)\<close> is an entry-for-entry copy of the block \<open>(i, j)\<close>, in every
  number type.  So the entry \<open>(p, q)\<close> of the block \<open>(i, j)\<close> equals the entry \<open>(q, p)\<close> of the
  block \<open>(j, i)\<close>, that is \<open>T_ij\<close> is the transpose of \<open>T_ji\<close>, exactly when the block
  \<open>(i, j)\<close> is itself symmetric in \<open>p\<close> and \<open>q\<close>; this is so for \<open>p = q\<close>, and in exact
  arithmetic for all \<open>p\<close> and \<open>q\<close>, because multiplication commutes and associates there.
\<close>

theorem dipole_field_matrix_symmetric:
  fixes s :: "'a::{zero,one,plus,uminus,minus,times,inverse} state"
    and e' :: "real env" and s' :: "real state"
  assumes "i < nlocal s" "j < nlocal s" "i \<noteq> j" "p < 3" "q < 3"
  shows "dipole_field_matrix (build_dipole_field_matrix e c s) (j * 3 + p) (i * 3 + q)
           = dipole_field_matrix (build_dipole_field_matrix e c s) (i * 3 + p) (j * 3 + q)
       \<and> (dipole_field_matrix (build_dipole_field_matrix e c s) (i * 3 + p) (j * 3 + q)
             = dipole_field_matrix (build_dipole_field_matrix e c s) (j * 3 + q) (i * 3 + p)
           \<longleftrightarrow>
           dipole_field_matrix (build_dipole_field_matrix e c s) (i * 3 + p) (j * 3 + q)
             = dipole_field_matrix (build_dipole_field_matrix e c s) (i * 3 + q) (j * 3 + p))
       \<and> dipole_field_matrix (build_dipole_field_matrix e c s) (i * 3 + p) (j * 3 + p)
           = dipole_field_matrix (build_dipole_field_matrix e c s) (j * 3 + p) (i * 3 + p)
       \<and> (i < nlocal s' \<and> j < nlocal s' \<longrightarrow>
            dipole_field_matrix (build_dipole_field_matrix e' c' s') (i * 3 + p) (j * 3 + q)
              = dipole_field_matrix (build_dipole_field_matrix e' c' s') (j * 3 + q) (i * 3 + p))"
proof -
  have copy: "dipole_field_matrix (build_dipole_field_matrix e c s) (j * 3 + a) (i * 3 + b)
           = dipole_field_matrix (build_dipole_field_matrix e c s) (i * 3 + a) (j * 3 + b)"
    if "a < 3" "b < 3" for a b
  proof (cases "i < j")
    case True
    show ?thesis
      using build_dipole_field_matrix_upper(1)[OF True assms(2) that, of e c]
        build_dipole_field_matrix_upper(2)[OF True assms(2) that(2,1), of e c]
      by simp
  next
    case False
    then have lt: "j < i" using assms(3) by simp
    show ?thesis
      using build_dipole_field_matrix_upper(1)[OF lt assms(1) that, of e c]
        build_dipole_field_matrix_upper(2)[OF lt assms(1) that(2,1), of e c]
      by simp
  qed
  have exact: "dipole_field_matrix (build_dipole_field_matrix e' c' s') (i * 3 + p) (j * 3 + q)
              = dipole_field_matrix (build_dipole_field_matrix e' c' s') (j * 3 + q) (i * 3 + p)"
    if "i < nlocal s'" "j < nlocal s'"
  proof (cases "i < j")
    case True
    then show ?thesis
      using that assms(4,5)
      by (simp add: build_dipole_field_matrix_upper tensor_entry_commute[of e' c' _ i j p q])
  next
    case False
    then have "j < i" using assms(3) by simp
    then show ?thesis
      using that assms(4,5)
      by (simp add: build_dipole_field_matrix_upper tensor_entry_commute[of e' c' _ j i p q])
  qed
  show ?thesis
    using copy[OF assms(4,5)] copy[OF assms(5,4)] copy[OF assms(4,4)] exact by simp
qed

theorem dipole_field_matrix_symmetric_witness:
  "dipole_field_matrix (build_dipole_field_matrix b64_env b64_settings offset_pair) 3 1
     = dipole_field_matrix (build_dipole_field_matrix b64_env b64_settings offset_pair) 0 4
   \<and> dipole_field_matrix (build_dipole_field_matrix b64_env b64_settings offset_pair) 0 3
     = dipole_field_matrix (build_dipole_field_matrix b64_env b64_settings offset_pair) 3 0
   \<and> dipole_field_matrix (build_dipole_field_matrix real_env default_settings two_particles) 0 4
     = dipole_field_matrix (build_dipole_field_matrix real_env default_settings two_particles) 4 0"
  using dipole_field_matrix_symmetric[where i = 0 and j = 1 and p = 0 and q = 1
      and s = offset_pair and e = b64_env and c = b64_settings
      and s' = two_particles and e' = real_env and c' = default_settings]
  by (simp add: two_particles_fields offset_pair_fields(1))

text \<open>
  C5 as stated fails in double precision.  For two particles, the second at
  \<open>(0.1, 0.3, 0)\<close> from the first, the entry \<open>(0, 1)\<close> of the block \<open>(0, 1)\<close> is
  \<open>((- 3 * d0) * d1) * 1 * r5\<close> and the entry \<open>(1, 0)\<close> of the block \<open>(1, 0)\<close> is the copy of
  \<open>((- 3 * d1) * d0) * 1 * r5\<close>; the two differ in the last bit
  (\<^verbatim>\<open>-0x1.c75e34235a6bdp+4\<close> and \<^verbatim>\<open>-0x1.c75e34235a6bcp+4\<close>).
\<close>

theorem dipole_field_matrix_symmetric_counterexample:
  "nlocal offset_pair = 2
   \<and> dipole_field_matrix (build_dipole_field_matrix b64_env b64_settings offset_pair) 0 4
       = b64_of (- 8010918276736701) (- 48)
   \<and> dipole_field_matrix (build_dipole_field_matrix b64_env b64_settings offset_pair) 4 0
       = b64_of (- 8010918276736700) (- 48)
   \<and> dipole_field_matrix (build_dipole_field_matrix b64_env b64_settings offset_pair) 0 4
       \<noteq> dipole_field_matrix (build_dipole_field_matrix b64_env b64_settings offset_pair) 4 0"
  using build_dipole_field_matrix_upper[of 0 1 offset_pair 0 1 b64_env b64_settings]
    offset_pair_entries
  by (simp add: offset_pair_fields(1) b64_of_eq_iff pow2_def)

end
